theory Spec2Isabelle
  imports Complex_Main "HOL-Library.Word"
begin

section \<open>Log throughput measurement: metrics aggregation\<close>

text \<open>
  The embedded function is \<open>aggregate_log_throughput\<close> of
  \<open>script/testing/replication/log_throughput/log_throughput.py\<close>. The metrics file is
  read by \<open>pd.read_csv\<close>; the model starts from the data rows of that file, in file
  order, each with the three columns the function reads. The columns hold integer
  counters and timestamps in microseconds, which pandas reads as \<open>int64\<close>: a value is a
  64-bit word read as a signed integer (\<open>sint\<close>), and the additions, the subtraction
  and the column sum of the function wrap around as numpy's do.
\<close>

record metrics_record =
  start_time :: "64 word"
  elapsed_time :: "64 word"
  num_records :: "64 word"

text \<open>
  \<open>mk_record\<close> writes a row from three integer literals; it is used on values of the
  \<open>int64\<close> range, where \<open>sint\<close> gives the literal back.
\<close>

definition mk_record :: "int \<Rightarrow> int \<Rightarrow> int \<Rightarrow> metrics_record" where
  "mk_record s e n =
     \<lparr>start_time = word_of_int s, elapsed_time = word_of_int e, num_records = word_of_int n\<rparr>"

subsection \<open>Rounding to a 64-bit float\<close>

text \<open>
  \<open>float64_round\<close> rounds a rational number to the nearest number with a significand
  of 53 bits, ties to the even significand: the rounding of IEEE 754 binary64 for every
  value in the range of the normal doubles. The exponent is not bounded here; the values
  this program computes stay within the range of the normal doubles (lemma
  \<open>np_values_within_double_range\<close>). \<open>bit_length n\<close> is the number of binary digits
  of \<open>n\<close>, \<open>floor_log2 n d\<close> is the integer part of the binary logarithm of
  \<open>n / d\<close>, and \<open>round_half_even n d\<close> is \<open>n / d\<close> rounded to the nearest
  integer, ties to even.
\<close>

function bit_length :: "int \<Rightarrow> int" where
  "bit_length n = (if n \<le> 0 then 0 else 1 + bit_length (n div 2))"
  by pat_completeness auto
termination
  by (relation "measure nat") auto

declare bit_length.simps [simp del]

definition round_half_even :: "int \<Rightarrow> int \<Rightarrow> int" where
  "round_half_even n d =
     (let q = n div d; r = n mod d in
      if 2 * r < d then q else if d < 2 * r then q + 1 else if even q then q else q + 1)"

definition floor_log2 :: "int \<Rightarrow> int \<Rightarrow> int" where
  "floor_log2 n d =
     (let k0 = bit_length n - bit_length d in
      if (if 0 \<le> k0 then d * 2 ^ nat k0 \<le> n else d \<le> n * 2 ^ nat (- k0)) then k0 else k0 - 1)"

definition pow2 :: "int \<Rightarrow> rat" where
  "pow2 k = (if 0 \<le> k then 2 ^ nat k else 1 / 2 ^ nat (- k))"

definition float64_round :: "rat \<Rightarrow> rat" where
  "float64_round x =
     (let (p, q) = quotient_of x; n = \<bar>p\<bar> in
      if n = 0 then 0
      else
        let k = floor_log2 n q - 52;
            m = (if 0 \<le> k then round_half_even n (q * 2 ^ nat k)
                 else round_half_even (n * 2 ^ nat (- k)) q)
        in of_int (sgn p * m) * pow2 k)"

subsection \<open>numpy's arithmetic on the aggregates\<close>

text \<open>
  The true division of two \<open>int64\<close> scalars converts both operands to \<open>float64\<close>
  and divides them; it never raises. A zero divisor gives \<open>inf\<close>, \<open>-inf\<close> or
  \<open>nan\<close> (with a warning), and zero divided by a negative number is the negative zero.
  The product with the integer 1000, which is a double, is rounded again and keeps the
  values that are not finite.
\<close>

datatype np_float = Finite rat | Neg_zero | Pos_inf | Neg_inf | NaN

definition np_truediv :: "64 word \<Rightarrow> 64 word \<Rightarrow> np_float" where
  "np_truediv a b =
     (if sint b = 0 then (if 0 < sint a then Pos_inf else if sint a < 0 then Neg_inf else NaN)
      else if sint a = 0 \<and> sint b < 0 then Neg_zero
      else Finite (float64_round (float64_round (of_int (sint a))
                                  / float64_round (of_int (sint b)))))"

fun np_mul_1000 :: "np_float \<Rightarrow> np_float" where
  "np_mul_1000 (Finite q) = Finite (float64_round (q * 1000))"
| "np_mul_1000 Neg_zero = Neg_zero"
| "np_mul_1000 Pos_inf = Pos_inf"
| "np_mul_1000 Neg_inf = Neg_inf"
| "np_mul_1000 NaN = NaN"

fun np_isfinite :: "np_float \<Rightarrow> bool" where
  "np_isfinite (Finite q) = True"
| "np_isfinite Neg_zero = True"
| "np_isfinite Pos_inf = False"
| "np_isfinite Neg_inf = False"
| "np_isfinite NaN = False"

subsection \<open>aggregate_log_throughput\<close>

text \<open>
  The function returns nothing; what it reports is what it logs. \<open>Inl msg\<close> is
  \<open>LOG.error(msg)\<close> followed by the early return, \<open>Inr v\<close> is the
  \<open>LOG.info\<close> of the average \<open>v\<close>.
\<close>

definition aggregate_log_throughput :: "metrics_record list \<Rightarrow> string + np_float" where
  "aggregate_log_throughput rows =
     (let df = drop 1 rows in
      if length df \<le> 1 then Inl ''Not enough data to calculate log throughput''
      else
        let end_time = start_time (last df) + elapsed_time (last df);
            start_time' = start_time (hd df);
            total_time = end_time - start_time';
            total_records = sum_list (map num_records df);
            avg_throughput = np_mul_1000 (np_truediv total_records total_time)
        in Inr avg_throughput)"

text \<open>
  The quantities of the specification's formula, over the records of the input itself:
  as the \<open>int64\<close> values the function computes (\<open>window_records\<close>,
  \<open>window_time\<close>) and as exact integers (\<open>exact_records\<close>, \<open>exact_time\<close>).
  The two agree when the exact value fits into 64 bits.
\<close>

definition window_records :: "metrics_record list \<Rightarrow> 64 word" where
  "window_records rows = sum_list (map num_records (drop 1 rows))"

definition window_time :: "metrics_record list \<Rightarrow> 64 word" where
  "window_time rows = start_time (last rows) + elapsed_time (last rows) - start_time (rows ! 1)"

definition exact_records :: "metrics_record list \<Rightarrow> int" where
  "exact_records rows = sum_list (map (\<lambda>r. sint (num_records r)) (drop 1 rows))"

definition exact_time :: "metrics_record list \<Rightarrow> int" where
  "exact_time rows =
     sint (start_time (last rows)) + sint (elapsed_time (last rows)) - sint (start_time (rows ! 1))"

definition fits_int64 :: "int \<Rightarrow> bool" where
  "fits_int64 x = (- (2 ^ 63) \<le> x \<and> x < 2 ^ 63)"

definition increasing_start_time :: "metrics_record list \<Rightarrow> bool" where
  "increasing_start_time rows = sorted_wrt (<) (map (\<lambda>r. sint (start_time r)) rows)"

section \<open>Log throughput measurement: node orchestration\<close>

subsection \<open>Exceptions\<close>

text \<open>
  The exception classes the handlers of \<open>log_throughput\<close> tell apart:
  \<open>except RuntimeError\<close> catches the first only, \<open>except Exception\<close> catches all
  but \<open>KeyboardInterrupt\<close>, which derives from \<open>BaseException\<close> alone.
\<close>

datatype py_exn = RuntimeError string | ValueError string | OSError string | KeyboardInterrupt

fun is_RuntimeError :: "py_exn \<Rightarrow> bool" where
  "is_RuntimeError (RuntimeError m) = True"
| "is_RuntimeError (ValueError m) = False"
| "is_RuntimeError (OSError m) = False"
| "is_RuntimeError KeyboardInterrupt = False"

fun is_Exception :: "py_exn \<Rightarrow> bool" where
  "is_Exception (RuntimeError m) = True"
| "is_Exception (ValueError m) = True"
| "is_Exception (OSError m) = True"
| "is_Exception KeyboardInterrupt = False"

subsection \<open>Nodes\<close>

text \<open>
  Modelled from the spec: the classes \<open>NodeServer\<close>, \<open>PrimaryNode\<close> and
  \<open>ReplicaNode\<close> of \<open>node_server.py\<close> are not among the source files. A node is its
  class together with what its external process does when each lifecycle method is
  called: whether \<open>setup()\<close>, \<open>run()\<close> and \<open>teardown()\<close> raise, and whether
  the process is alive once \<open>setup()\<close> has returned or raised. \<open>is_running()\<close> reads
  the liveness without side effects; a node that was never set up is not running, and
  \<open>teardown()\<close> stops the process.
\<close>

record behaviour =
  setup_raises :: "py_exn option"
  alive_after_setup :: bool
  run_raises :: "py_exn option"
  teardown_raises :: "py_exn option"

datatype NodeServer = PrimaryNode behaviour | ReplicaNode behaviour

fun behaviour_of :: "NodeServer \<Rightarrow> behaviour" where
  "behaviour_of (PrimaryNode b) = b"
| "behaviour_of (ReplicaNode b) = b"

fun isinstance_PrimaryNode :: "NodeServer \<Rightarrow> bool" where
  "isinstance_PrimaryNode (PrimaryNode b) = True"
| "isinstance_PrimaryNode (ReplicaNode b) = False"

fun isinstance_ReplicaNode :: "NodeServer \<Rightarrow> bool" where
  "isinstance_ReplicaNode (PrimaryNode b) = False"
| "isinstance_ReplicaNode (ReplicaNode b) = True"

datatype TestType = PRIMARY | REPLICA

subsection \<open>Observable events and the state of one invocation\<close>

text \<open>
  Every call that leaves \<open>log_throughput\<close> is recorded, in order. A node is named by
  its position in the list \<open>servers\<close>. The last event carries what
  \<open>aggregate_log_throughput\<close> reports on the rows of the relocated file.
\<close>

text \<open>
  Modelled from the spec: the helpers of \<open>metrics_file_util.py\<close>
  (\<open>delete_metrics_file\<close>, \<open>create_results_dir\<close>, \<open>delete_metrics_files\<close>,
  \<open>move_metrics_file_to_results_dir\<close>) are not among the source files. Each of them
  moves or deletes files and is recorded as an event that does not raise.
\<close>

datatype event =
    Setup nat
  | Run nat
  | Teardown nat
  | Delete_metrics_file string
  | Replica_sync nat "nat list"
  | LOG_error py_exn
  | LOG_warn py_exn
  | Create_results_dir
  | Delete_metrics_files "string list"
  | Move_metrics_file_to_results_dir string string
  | Aggregate_log_throughput string "string + np_float"

record run_state =
  trace :: "event list"
  running :: "nat \<Rightarrow> bool"

definition initial_state :: run_state where
  "initial_state = \<lparr>trace = [], running = (\<lambda>i. False)\<rparr>"

definition emit :: "event list \<Rightarrow> run_state \<Rightarrow> run_state" where
  "emit evs s = s\<lparr>trace := trace s @ evs\<rparr>"

fun server_setup :: "nat \<times> NodeServer \<Rightarrow> run_state \<Rightarrow> run_state \<times> py_exn option" where
  "server_setup (i, n) s =
     (s\<lparr>trace := trace s @ [Setup i],
        running := (running s)(i := alive_after_setup (behaviour_of n))\<rparr>,
      setup_raises (behaviour_of n))"

fun server_run :: "nat \<times> NodeServer \<Rightarrow> run_state \<Rightarrow> run_state \<times> py_exn option" where
  "server_run (i, n) s = (s\<lparr>trace := trace s @ [Run i]\<rparr>, run_raises (behaviour_of n))"

fun server_is_running :: "nat \<times> NodeServer \<Rightarrow> run_state \<Rightarrow> bool" where
  "server_is_running (i, n) s = running s i"

fun server_teardown :: "nat \<times> NodeServer \<Rightarrow> run_state \<Rightarrow> run_state \<times> py_exn option" where
  "server_teardown (i, n) s =
     (s\<lparr>trace := trace s @ [Teardown i], running := (running s)(i := False)\<rparr>,
      teardown_raises (behaviour_of n))"

text \<open>
  \<open>for server in servers: body\<close>, where the body may raise: the loop stops at the
  first exception, which leaves the loop with the state reached so far.
\<close>

fun for_each ::
  "('a \<Rightarrow> 's \<Rightarrow> 's \<times> py_exn option) \<Rightarrow> 'a list \<Rightarrow> 's \<Rightarrow> 's \<times> py_exn option" where
  "for_each body [] s = (s, None)"
| "for_each body (x # xs) s =
     (case body x s of
        (s', None) \<Rightarrow> for_each body xs s'
      | (s', Some e) \<Rightarrow> (s', Some e))"

subsection \<open>get_servers\<close>

text \<open>
  The constructors receive the build type, the benchmark and the other parameters of
  the invocation; none of them decides a branch of the orchestration, so the two nodes an
  invocation can create are given by their behaviours.
\<close>

definition get_servers :: "behaviour \<Rightarrow> behaviour \<Rightarrow> TestType \<Rightarrow> bool \<Rightarrow> NodeServer list" where
  "get_servers primary replica test_type replication_enabled =
     (if test_type = PRIMARY then
        [PrimaryNode primary] @ (if replication_enabled then [ReplicaNode replica] else [])
      else if test_type = REPLICA then [ReplicaNode replica]
      else [])"

subsection \<open>sync_servers\<close>

text \<open>
  Modelled from the spec: \<open>replica_sync\<close> of \<open>utils_sql.py\<close> is not among the source
  files. It polls the replicas until they have caught up with the primary, and fails on
  timeout; \<open>replica_sync_raises\<close> is what that call does. The function returns the
  events it causes and the exception it raises, if any.
\<close>

definition sync_servers ::
  "py_exn option \<Rightarrow> NodeServer list \<Rightarrow> event list \<times> py_exn option" where
  "sync_servers replica_sync_raises servers =
     (if length servers < 2 then ([], None)
      else
        let primary = map fst (filter (\<lambda>(i, server). isinstance_PrimaryNode server)
                                 (enumerate 0 servers)) in
        if length primary > 1 then
          ([], Some (RuntimeError ''Should never have multiple primaries running at once''))
        else if length primary = 0 then ([], None)
        else
          let primary' = hd primary;
              replicas = map fst (filter (\<lambda>(i, server). isinstance_ReplicaNode server)
                                    (enumerate 0 servers))
          in ([Replica_sync primary' replicas], replica_sync_raises))"

subsection \<open>log_throughput\<close>

text \<open>What the surroundings of one invocation do.\<close>

record environment =
  primary_behaviour :: behaviour
  replica_behaviour :: behaviour
  replica_sync_raises :: "py_exn option"
  metrics_rows :: "metrics_record list"
  default_output_file :: string

text \<open>
  The constants \<open>LOG_SERIALIZER_CSV\<close> and \<open>RECOVERY_MANAGER_CSV\<close> of
  \<open>constants.py\<close> are not among the source files; they are parameters.
\<close>

record constants =
  LOG_SERIALIZER_CSV :: string
  RECOVERY_MANAGER_CSV :: string

text \<open>The body of the first \<open>try\<close> statement: set up every node, clear the metrics
  file, start every node.\<close>

definition setup_and_run ::
  "string \<Rightarrow> NodeServer list \<Rightarrow> run_state \<Rightarrow> run_state \<times> py_exn option" where
  "setup_and_run metrics_file servers s =
     (case for_each server_setup (enumerate 0 servers) s of
        (s1, Some e) \<Rightarrow> (s1, Some e)
      | (s1, None) \<Rightarrow>
          for_each server_run (enumerate 0 servers) (emit [Delete_metrics_file metrics_file] s1))"

fun teardown_if_running :: "nat \<times> NodeServer \<Rightarrow> run_state \<Rightarrow> run_state \<times> py_exn option" where
  "teardown_if_running (i, n) s =
     (if server_is_running (i, n) s then server_teardown (i, n) s else (s, None))"

text \<open>The second \<open>try\<close> statement: an \<open>Exception\<close> raised by the synchronization
  is logged as a warning.\<close>

definition try_sync_servers ::
  "py_exn option \<Rightarrow> NodeServer list \<Rightarrow> run_state \<Rightarrow> run_state \<times> py_exn option" where
  "try_sync_servers rs servers s =
     (case sync_servers rs servers of
        (evs, None) \<Rightarrow> (emit evs s, None)
      | (evs, Some e) \<Rightarrow>
          if is_Exception e then (emit (evs @ [LOG_warn e]) s, None)
          else (emit evs s, Some e))"

text \<open>
  The statements of \<open>log_throughput\<close> that follow the call of \<open>get_servers\<close>. The
  result is the final state and the exception that leaves the function, if any;
  \<open>None\<close> is a return, the early one of the handler included.
\<close>

definition run_servers ::
  "environment \<Rightarrow> string \<Rightarrow> string list \<Rightarrow> string \<Rightarrow> NodeServer list \<Rightarrow> run_state \<Rightarrow>
   run_state \<times> py_exn option" where
  "run_servers env metrics_file other_metrics_files output_file servers s =
     (case setup_and_run metrics_file servers s of
        (s1, Some e) \<Rightarrow>
          if is_RuntimeError e then
            for_each teardown_if_running (enumerate 0 servers) (emit [LOG_error e] s1)
          else (s1, Some e)
      | (s1, None) \<Rightarrow>
          (case try_sync_servers (replica_sync_raises env) servers s1 of
             (s2, Some e) \<Rightarrow> (s2, Some e)
           | (s2, None) \<Rightarrow>
               (case for_each server_teardown (enumerate 0 servers) s2 of
                  (s3, Some e) \<Rightarrow> (s3, Some e)
                | (s3, None) \<Rightarrow>
                    (emit [Create_results_dir,
                           Delete_metrics_files other_metrics_files,
                           Move_metrics_file_to_results_dir metrics_file output_file,
                           Aggregate_log_throughput output_file
                             (aggregate_log_throughput (metrics_rows env))] s3,
                     None))))"

text \<open>
  The whole function. The module-level list \<open>METRICS_FILES\<close> is passed in and
  returned: \<open>other_metrics_files\<close> is the same list object, so \<open>remove\<close> changes the
  global, and raises \<open>ValueError\<close> when the name is not in the list. The default
  output name is built from the clock; the environment supplies it.
\<close>

definition log_throughput ::
  "constants \<Rightarrow> environment \<Rightarrow> TestType \<Rightarrow> bool \<Rightarrow> string option \<Rightarrow> string list \<Rightarrow>
   string list \<times> run_state \<times> py_exn option" where
  "log_throughput c env test_type replication_enabled output_file METRICS_FILES =
     (let output_file' = (case output_file of None \<Rightarrow> default_output_file env | Some f \<Rightarrow> f);
          metrics_file = (if test_type = PRIMARY then LOG_SERIALIZER_CSV c
                          else RECOVERY_MANAGER_CSV c)
      in
        if metrics_file \<notin> set METRICS_FILES then
          (METRICS_FILES, initial_state, Some (ValueError ''list.remove(x): x not in list''))
        else
          let other_metrics_files = remove1 metrics_file METRICS_FILES;
              servers = get_servers (primary_behaviour env) (replica_behaviour env)
                          test_type replication_enabled;
              (s, r) = run_servers env metrics_file other_metrics_files output_file'
                         servers initial_state
          in (other_metrics_files, s, r))"

subsection \<open>Reading a trace\<close>

fun teardown_index :: "event \<Rightarrow> nat option" where
  "teardown_index (Teardown i) = Some i"
| "teardown_index ev = None"

fun setup_index :: "event \<Rightarrow> nat option" where
  "setup_index (Setup i) = Some i"
| "setup_index ev = None"

definition teardown_order :: "event list \<Rightarrow> nat list" where
  "teardown_order tr = List.map_filter teardown_index tr"

definition setup_order :: "event list \<Rightarrow> nat list" where
  "setup_order tr = List.map_filter setup_index tr"

fun is_result_event :: "event \<Rightarrow> bool" where
  "is_result_event (Move_metrics_file_to_results_dir a b) = True"
| "is_result_event (Aggregate_log_throughput a r) = True"
| "is_result_event ev = False"

fun is_run_or_sync :: "event \<Rightarrow> bool" where
  "is_run_or_sync (Run i) = True"
| "is_run_or_sync (Replica_sync p rs) = True"
| "is_run_or_sync ev = False"

subsection \<open>Example nodes and surroundings\<close>

definition ok :: behaviour where
  "ok = \<lparr>setup_raises = None, alive_after_setup = True, run_raises = None,
         teardown_raises = None\<rparr>"

definition setup_fails :: "py_exn \<Rightarrow> bool \<Rightarrow> behaviour" where
  "setup_fails e alive = \<lparr>setup_raises = Some e, alive_after_setup = alive, run_raises = None,
         teardown_raises = None\<rparr>"

definition run_fails :: "py_exn \<Rightarrow> behaviour" where
  "run_fails e = \<lparr>setup_raises = None, alive_after_setup = True, run_raises = Some e,
         teardown_raises = None\<rparr>"


definition example_rows :: "metrics_record list" where
  "example_rows = [mk_record 0 100 5, mk_record 100 100 50, mk_record 300 100 45]"

definition example_env :: "behaviour \<Rightarrow> behaviour \<Rightarrow> py_exn option \<Rightarrow> environment" where
  "example_env primary replica polling =
     \<lparr>primary_behaviour = primary, replica_behaviour = replica,
      replica_sync_raises = polling, metrics_rows = example_rows,
      default_output_file = ''primary-log-throughput-0.csv''\<rparr>"

definition example_constants :: constants where
  "example_constants =
     \<lparr>LOG_SERIALIZER_CSV = ''log_serializer_task.csv'',
      RECOVERY_MANAGER_CSV = ''recovery_manager.csv''\<rparr>"

definition example_METRICS_FILES :: "string list" where
  "example_METRICS_FILES =
     [''log_serializer_task.csv'', ''disk_log_consumer_task.csv'', ''recovery_manager.csv'']"

section \<open>Aggregation: helper lemmas\<close>

lemma aggregate_short:
  "length rows < 3 \<Longrightarrow>
   aggregate_log_throughput rows = Inl ''Not enough data to calculate log throughput''"
  by (auto simp add: aggregate_log_throughput_def Let_def)

lemma drop1_last: "2 \<le> length rows \<Longrightarrow> last (drop 1 rows) = last rows"
  by (cases rows) auto

lemma drop1_hd: "2 \<le> length rows \<Longrightarrow> hd (drop 1 rows) = rows ! 1"
proof -
  assume len: "2 \<le> length rows"
  then obtain a b rest where "rows = a # b # rest"
    by (cases rows; cases "tl rows") auto
  then show ?thesis by simp
qed

lemma aggregate_long:
  "3 \<le> length rows \<Longrightarrow>
   aggregate_log_throughput rows =
     Inr (np_mul_1000 (np_truediv (window_records rows) (window_time rows)))"
proof -
  assume len: "3 \<le> length rows"
  then have "\<not> length (drop 1 rows) \<le> 1" by simp
  moreover have "last (drop 1 rows) = last rows" using len by (intro drop1_last) simp
  moreover have "hd (drop 1 rows) = rows ! 1" using len by (intro drop1_hd) simp
  ultimately show ?thesis
    unfolding aggregate_log_throughput_def Let_def window_records_def window_time_def
    by simp
qed

lemma aggregate_first_irrelevant:
  "aggregate_log_throughput (r # tl rows) = aggregate_log_throughput (r' # tl rows)"
  by (simp add: aggregate_log_throughput_def)

lemma sint_of_fitting_int:
  assumes "fits_int64 x"
  shows "sint (word_of_int x :: 64 word) = x"
  using assms by (simp add: fits_int64_def signed_of_int signed_take_bit_int_eq_self)

lemma sint_eq_0: "(sint (w :: 64 word) = 0) = (w = 0)"
proof
  assume "sint w = 0"
  then have "word_of_int (sint w) = (word_of_int 0 :: 64 word)" by simp
  then show "w = 0" by simp
qed simp

lemma word_sum_list_of_sint:
  "(sum_list ws :: 64 word) = word_of_int (sum_list (map sint ws))"
  by (induction ws) simp_all

lemma sint_window_records:
  assumes "fits_int64 (exact_records rows)"
  shows "sint (window_records rows) = exact_records rows"
proof -
  have "window_records rows = word_of_int (exact_records rows)"
    by (simp add: window_records_def exact_records_def word_sum_list_of_sint comp_def)
  then show ?thesis using sint_of_fitting_int [OF assms] by simp
qed

lemma sint_window_time:
  assumes "fits_int64 (exact_time rows)"
  shows "sint (window_time rows) = exact_time rows"
proof -
  have "window_time rows = word_of_int (exact_time rows)"
    by (simp add: window_time_def exact_time_def)
  then show ?thesis using sint_of_fitting_int [OF assms] by simp
qed

lemma exact_time_pos:
  assumes len: "3 \<le> length rows"
    and inc: "increasing_start_time rows"
    and el: "0 \<le> sint (elapsed_time (last rows))"
  shows "0 < exact_time rows"
proof -
  have "rows \<noteq> []" using len by auto
  then have l: "last rows = rows ! (length rows - 1)" by (simp add: last_conv_nth)
  have "map (\<lambda>r. sint (start_time r)) rows ! 1
      < map (\<lambda>r. sint (start_time r)) rows ! (length rows - 1)"
    using sorted_wrt_nth_less [of "(<)" "map (\<lambda>r. sint (start_time r)) rows" 1
        "length rows - 1"] inc len
    unfolding increasing_start_time_def by simp
  then have "sint (start_time (rows ! 1)) < sint (start_time (last rows))"
    using len l by simp
  then show ?thesis using el by (simp add: exact_time_def)
qed

section \<open>Rounding: helper lemmas\<close>

lemma bit_length_bounds:
  "0 < n \<Longrightarrow> \<exists>b. bit_length n = int (Suc b) \<and> 2 ^ b \<le> n \<and> n < 2 ^ Suc b"
proof (induction n rule: bit_length.induct)
  case (1 n)
  show ?case
  proof (cases "n div 2 \<le> 0")
    case True
    then have n1: "n = 1" using "1.prems" by linarith
    have "bit_length 1 = 1" by (simp add: bit_length.simps)
    then have "bit_length n = int (Suc 0) \<and> 2 ^ 0 \<le> n \<and> n < 2 ^ Suc 0" using n1 by simp
    then show ?thesis by blast
  next
    case False
    then have pos: "0 < n div 2" by simp
    obtain b where b: "bit_length (n div 2) = int (Suc b)" "2 ^ b \<le> n div 2" "n div 2 < 2 ^ Suc b"
      using "1.IH" "1.prems" pos by auto
    have "bit_length n = 1 + bit_length (n div 2)"
      using "1.prems" by (subst bit_length.simps) simp
    then have "bit_length n = int (Suc (Suc b))" using b(1) by simp
    moreover have "2 ^ Suc b \<le> n" using b(2) by simp
    moreover have "n < 2 ^ Suc (Suc b)" using b(3) by simp
    ultimately show ?thesis by blast
  qed
qed

lemma round_half_even_error:
  assumes "0 < d"
  shows "\<bar>of_int (round_half_even n d) - (of_int n / of_int d :: rat)\<bar> \<le> 1 / 2"
proof -
  let ?q = "n div d" and ?r = "n mod d"
  have d: "(0::rat) < of_int d" using assms by simp
  have n: "(of_int n :: rat) = of_int ?q * of_int d + of_int ?r"
    by (metis mult.commute mult_div_mod_eq of_int_add of_int_mult)
  have frac: "(of_int n / of_int d :: rat) = of_int ?q + of_int ?r / of_int d"
    using d n by (simp add: field_simps)
  have r0: "0 \<le> ?r" and r1: "?r < d" using assms by simp_all
  have r0': "(0::rat) \<le> of_int ?r / of_int d" using r0 d by simp
  have r1': "of_int ?r / of_int d < (1::rat)" using r1 d by simp
  consider "2 * ?r < d" | "d < 2 * ?r" | "2 * ?r = d" by linarith
  then show ?thesis
  proof cases
    case 1
    then have "(of_int (2 * ?r) :: rat) < of_int d" using of_int_less_iff by blast
    then have "of_int ?r / of_int d < (1 / 2 :: rat)" using d by (simp add: field_simps)
    then show ?thesis using 1 r0' frac by (simp add: round_half_even_def Let_def)
  next
    case 2
    then have "(of_int d :: rat) < of_int (2 * ?r)" using of_int_less_iff by blast
    then have "(1 / 2 :: rat) < of_int ?r / of_int d" using d by (simp add: field_simps)
    then show ?thesis using 2 r1' frac by (simp add: round_half_even_def Let_def)
  next
    case 3
    then have "(of_int d :: rat) = of_int (2 * ?r)" by simp
    then have h: "of_int ?r / of_int d = (1 / 2 :: rat)" using d by (simp add: field_simps)
    have rhe: "round_half_even n d = (if even ?q then ?q else ?q + 1)"
      using 3 by (simp add: round_half_even_def Let_def)
    show ?thesis unfolding rhe frac h by simp
  qed
qed


lemma pow2_powi: "pow2 k = 2 powi k"
  by (simp add: pow2_def power_int_def field_simps)

lemma pow2_pos: "0 < pow2 k"
  by (simp add: pow2_powi)

lemma pow2_add: "pow2 (a + b) = pow2 a * pow2 b"
  by (simp add: pow2_powi power_int_add)

lemma pow2_nat: "pow2 (int b) = 2 ^ b"
  by (simp add: pow2_def)

lemma pow2_Suc: "pow2 (k + 1) = 2 * pow2 k"
  using pow2_add [of k 1] by (simp add: pow2_def)

lemma floor_log2_test:
  assumes "0 < n" "0 < d"
  shows "(if 0 \<le> k then d * 2 ^ nat k \<le> n else d \<le> n * 2 ^ nat (- k))
         = (pow2 k * of_int d \<le> (of_int n :: rat))"
proof (cases "0 \<le> k")
  case True
  have "(d * 2 ^ nat k \<le> n) = ((of_int (d * 2 ^ nat k) :: rat) \<le> of_int n)"
    by (simp only: of_int_le_iff)
  then show ?thesis using True by (simp add: pow2_def mult.commute)
next
  case False
  have "(d \<le> n * 2 ^ nat (- k)) = ((of_int d :: rat) \<le> of_int (n * 2 ^ nat (- k)))"
    by (simp only: of_int_le_iff)
  then show ?thesis using False by (simp add: pow2_def field_simps)
qed

lemma floor_log2_bounds:
  assumes "0 < n" "0 < d"
  shows "pow2 (floor_log2 n d) * of_int d \<le> (of_int n :: rat)"
    and "(of_int n :: rat) < pow2 (floor_log2 n d + 1) * of_int d"
proof -
  obtain bn where bn: "bit_length n = int (Suc bn)" "2 ^ bn \<le> n" "n < 2 ^ Suc bn"
    using bit_length_bounds [OF assms(1)] by blast
  obtain bd where bd: "bit_length d = int (Suc bd)" "2 ^ bd \<le> d" "d < 2 ^ Suc bd"
    using bit_length_bounds [OF assms(2)] by blast
  let ?k0 = "int bn - int bd"
  have k0: "bit_length n - bit_length d = ?k0" using bn(1) bd(1) by simp
  have nlo: "(2 ^ bn :: rat) \<le> of_int n"
    using bn(2) by (metis of_int_le_iff of_int_numeral of_int_power)
  have nhi: "(of_int n :: rat) < 2 ^ Suc bn"
    using bn(3) by (metis of_int_less_iff of_int_numeral of_int_power)
  have dlo: "(2 ^ bd :: rat) \<le> of_int d"
    using bd(2) by (metis of_int_le_iff of_int_numeral of_int_power)
  have dhi: "(of_int d :: rat) < 2 ^ Suc bd"
    using bd(3) by (metis of_int_less_iff of_int_numeral of_int_power)
  have up: "(of_int n :: rat) < pow2 (?k0 + 1) * of_int d"
  proof -
    have "pow2 (?k0 + 1) * 2 ^ bd = pow2 (?k0 + 1 + int bd)"
      by (simp only: pow2_add pow2_nat)
    also have "\<dots> = 2 ^ Suc bn" using pow2_nat [of "Suc bn"] by (simp add: add.commute)
    finally have "pow2 (?k0 + 1) * 2 ^ bd = 2 ^ Suc bn" .
    moreover have "pow2 (?k0 + 1) * 2 ^ bd \<le> pow2 (?k0 + 1) * of_int d"
      using dlo pow2_pos [of "?k0 + 1"] by simp
    ultimately show ?thesis using nhi by linarith
  qed
  have lo: "pow2 (?k0 - 1) * of_int d \<le> (of_int n :: rat)"
  proof -
    have "pow2 (?k0 - 1) * 2 ^ Suc bd = pow2 (?k0 - 1 + int (Suc bd))"
      by (simp only: pow2_add pow2_nat)
    also have "\<dots> = 2 ^ bn" using pow2_nat [of bn] by simp
    finally have "pow2 (?k0 - 1) * 2 ^ Suc bd = 2 ^ bn" .
    moreover have "pow2 (?k0 - 1) * of_int d \<le> pow2 (?k0 - 1) * 2 ^ Suc bd"
      using dhi pow2_pos [of "?k0 - 1"] by simp
    ultimately show ?thesis using nlo by linarith
  qed
  note test = floor_log2_test [OF assms, of ?k0]
  show "pow2 (floor_log2 n d) * of_int d \<le> (of_int n :: rat)"
    using test lo by (simp add: floor_log2_def k0 Let_def)
  show "(of_int n :: rat) < pow2 (floor_log2 n d + 1) * of_int d"
    using test up by (auto simp add: floor_log2_def k0 Let_def)
qed


lemma pow2_cancel: "pow2 k * pow2 (- k) = 1"
  using pow2_add [of k "- k"] by (simp add: pow2_def)

lemma float64_round_mantissa:
  assumes n: "0 < n" and q: "0 < q"
  defines "k \<equiv> floor_log2 n q - 52"
  defines "m \<equiv> (if 0 \<le> k then round_half_even n (q * 2 ^ nat k)
                  else round_half_even (n * 2 ^ nat (- k)) q)"
  defines "a \<equiv> (of_int n / of_int q :: rat)"
  shows "\<bar>of_int m - a * pow2 (- k)\<bar> \<le> 1 / 2"
    and "2 ^ 52 \<le> a * pow2 (- k)"
    and "a * pow2 (- k) < 2 ^ 53"
proof -
  have q': "(0::rat) < of_int q" using q by simp
  show "\<bar>of_int m - a * pow2 (- k)\<bar> \<le> 1 / 2"
  proof (cases "0 \<le> k")
    case True
    have "(0::int) < q * 2 ^ nat k" using q by simp
    from round_half_even_error [OF this, of n]
    have "\<bar>of_int (round_half_even n (q * 2 ^ nat k))
        - (of_int n / of_int (q * 2 ^ nat k) :: rat)\<bar> \<le> 1 / 2" .
    moreover have "(of_int n / of_int (q * 2 ^ nat k) :: rat) = a * pow2 (- k)"
      using True by (simp add: a_def pow2_def)
    ultimately show ?thesis using True by (simp add: m_def)
  next
    case False
    from round_half_even_error [OF q, of "n * 2 ^ nat (- k)"]
    have "\<bar>of_int (round_half_even (n * 2 ^ nat (- k)) q)
        - (of_int (n * 2 ^ nat (- k)) / of_int q :: rat)\<bar> \<le> 1 / 2" .
    moreover have "(of_int (n * 2 ^ nat (- k)) / of_int q :: rat) = a * pow2 (- k)"
      using False by (simp add: a_def pow2_def)
    ultimately show ?thesis using False by (simp add: m_def)
  qed
  have e: "pow2 (floor_log2 n q) * pow2 (- k) = 2 ^ 52"
  proof -
    have "pow2 (floor_log2 n q) * pow2 (- k) = pow2 (floor_log2 n q + (- k))"
      by (simp only: pow2_add)
    also have "\<dots> = pow2 (int 52)" by (simp add: k_def)
    finally show ?thesis by (simp only: pow2_nat)
  qed
  have e1: "pow2 (floor_log2 n q + 1) * pow2 (- k) = 2 ^ 53"
  proof -
    have "pow2 (floor_log2 n q + 1) * pow2 (- k) = pow2 (floor_log2 n q + 1 + (- k))"
      by (simp only: pow2_add)
    also have "\<dots> = pow2 (int 53)" by (simp add: k_def)
    finally show ?thesis by (simp only: pow2_nat)
  qed
  have lo: "pow2 (floor_log2 n q) \<le> a"
    using floor_log2_bounds(1) [OF n q] q' by (simp add: a_def field_simps)
  have hi: "a < pow2 (floor_log2 n q + 1)"
    using floor_log2_bounds(2) [OF n q] q' by (simp add: a_def field_simps)
  have "pow2 (floor_log2 n q) * pow2 (- k) \<le> a * pow2 (- k)"
    using lo pow2_pos [of "- k"] by simp
  then show "2 ^ 52 \<le> a * pow2 (- k)" using e by simp
  have "a * pow2 (- k) < pow2 (floor_log2 n q + 1) * pow2 (- k)"
    using hi pow2_pos [of "- k"] by simp
  then show "a * pow2 (- k) < 2 ^ 53" using e1 by simp
qed

lemma float64_round_error:
  "\<bar>float64_round x - x\<bar> \<le> \<bar>x\<bar> / 2 ^ 53 \<and> sgn (float64_round x) = sgn x"
proof -
  obtain p q where pq: "quotient_of x = (p, q)" by (cases "quotient_of x")
  have q: "0 < q" using pq by (rule quotient_of_denom_pos)
  have x: "x = of_int p / of_int q" using pq by (rule quotient_of_div)
  have q': "(0::rat) < of_int q" using q by simp
  show ?thesis
  proof (cases "p = 0")
    case True
    then show ?thesis using x pq by (simp add: float64_round_def)
  next
    case False
    define n where "n = \<bar>p\<bar>"
    define k where "k = floor_log2 n q - 52"
    define m where "m = (if 0 \<le> k then round_half_even n (q * 2 ^ nat k)
                  else round_half_even (n * 2 ^ nat (- k)) q)"
    define a where "a = (of_int n / of_int q :: rat)"
    have n: "0 < n" using False by (simp add: n_def)
    have fr: "float64_round x = of_int (sgn p * m) * pow2 k"
      using False pq by (simp add: float64_round_def Let_def n_def k_def m_def)
    note ma = float64_round_mantissa [OF n q, folded k_def, folded m_def, folded a_def]
    have apos: "0 < a" using n q' by (simp add: a_def)
    have xa: "x = of_int (sgn p) * a"
      unfolding x a_def n_def by (simp add: abs_sgn mult.commute flip: of_int_mult)
    have sp: "\<bar>of_int (sgn p) :: rat\<bar> = 1" using False by (simp add: sgn_if)
    have "(1::rat) \<le> 2 ^ 52" by simp
    then have mpos: "(0::rat) < of_int m" using ma(1,2) by linarith
    have diff: "float64_round x - x = of_int (sgn p) * ((of_int m - a * pow2 (- k)) * pow2 k)"
    proof -
      have c: "a * pow2 (- k) * pow2 k = a"
        using pow2_cancel [of k] by (simp add: mult.assoc mult.commute)
      have "float64_round x - x = of_int (sgn p * m) * pow2 k - x" by (simp only: fr)
      also have "\<dots> = of_int (sgn p * m) * pow2 k - of_int (sgn p) * a" using xa by simp
      also have "\<dots> = of_int (sgn p) * (of_int m * pow2 k - a * pow2 (- k) * pow2 k)"
        unfolding c by (simp add: algebra_simps)
      also have "\<dots> = of_int (sgn p) * ((of_int m - a * pow2 (- k)) * pow2 k)"
        by (simp add: algebra_simps)
      finally show ?thesis .
    qed
    have "\<bar>float64_round x - x\<bar> = \<bar>of_int m - a * pow2 (- k)\<bar> * pow2 k"
      unfolding diff using sp pow2_pos [of k] by (simp add: abs_mult)
    also have "\<dots> \<le> 1 / 2 * pow2 k"
      using ma(1) pow2_pos [of k] by (intro mult_right_mono) simp_all
    finally have err: "\<bar>float64_round x - x\<bar> \<le> pow2 k / 2" by simp
    have "2 ^ 52 * pow2 k \<le> a * pow2 (- k) * pow2 k"
      using ma(2) pow2_pos [of k] by (intro mult_right_mono) simp_all
    also have "\<dots> = a" using pow2_cancel [of k] by (simp add: mult.assoc mult.commute)
    finally have "2 ^ 52 * pow2 k \<le> a" .
    moreover have "\<bar>x\<bar> = a" unfolding xa using sp apos by (simp add: abs_mult)
    ultimately have "pow2 k / 2 \<le> \<bar>x\<bar> / 2 ^ 53" by simp
    then have bound: "\<bar>float64_round x - x\<bar> \<le> \<bar>x\<bar> / 2 ^ 53" using err by linarith
    have "sgn (float64_round x) = of_int (sgn p)"
      unfolding fr using mpos pow2_pos [of k] False
      by (simp add: sgn_mult sgn_if zero_less_mult_iff)
    moreover have "sgn x = of_int (sgn p)"
      unfolding xa using apos False by (simp add: sgn_mult sgn_if)
    ultimately show ?thesis using bound by simp
  qed
qed


lemma float64_round_step:
  fixes x y e :: rat
  assumes "\<bar>y - x\<bar> \<le> e * \<bar>x\<bar>" and "0 \<le> e" and "e \<le> 1"
  shows "\<bar>float64_round y - x\<bar> \<le> (e + 2 / 2 ^ 53) * \<bar>x\<bar>"
proof -
  have ylex: "\<bar>y\<bar> \<le> 2 * \<bar>x\<bar>"
  proof -
    have "e * \<bar>x\<bar> \<le> 1 * \<bar>x\<bar>" using assms(3) by (intro mult_right_mono) simp_all
    then show ?thesis using assms(1) by linarith
  qed
  have "\<bar>float64_round y - y\<bar> \<le> \<bar>y\<bar> / 2 ^ 53" using float64_round_error [of y] by simp
  also have "\<dots> \<le> 2 * \<bar>x\<bar> / 2 ^ 53" using ylex by (simp add: divide_right_mono)
  finally have "\<bar>float64_round y - y\<bar> \<le> 2 / 2 ^ 53 * \<bar>x\<bar>" by simp
  then have "\<bar>float64_round y - x\<bar> \<le> e * \<bar>x\<bar> + 2 / 2 ^ 53 * \<bar>x\<bar>"
    using assms(1) by linarith
  then show ?thesis by (simp add: algebra_simps)
qed

lemma quotient_of_rounded:
  fixes S T A B u :: rat
  assumes a: "\<bar>A - S\<bar> \<le> u * \<bar>S\<bar>" and b: "\<bar>B - T\<bar> \<le> u * T"
    and t: "0 < T" and u0: "0 \<le> u" and u1: "u \<le> 1 / 3"
  shows "\<bar>A / B - S / T\<bar> \<le> 3 * u * \<bar>S / T\<bar>"
proof -
  have "u * T \<le> 1 / 3 * T" using u1 t by (intro mult_right_mono) simp_all
  then have bt: "2 * T \<le> 3 * B" using b by linarith
  then have bpos: "0 < B" using t by linarith
  have "A * T - S * B = (A - S) * T - S * (B - T)" by (simp add: algebra_simps)
  then have "\<bar>A * T - S * B\<bar> \<le> \<bar>A - S\<bar> * T + \<bar>S\<bar> * \<bar>B - T\<bar>"
    using abs_triangle_ineq4 [of "(A - S) * T" "S * (B - T)"] t by (simp add: abs_mult)
  also have "\<dots> \<le> u * \<bar>S\<bar> * T + \<bar>S\<bar> * (u * T)"
    using a b t by (intro add_mono mult_right_mono mult_left_mono) simp_all
  also have "\<dots> = u * \<bar>S\<bar> * (2 * T)" by (simp add: algebra_simps)
  also have "\<dots> \<le> u * \<bar>S\<bar> * (3 * B)"
    using bt u0 by (intro mult_left_mono) simp_all
  finally have num: "\<bar>A * T - S * B\<bar> \<le> 3 * u * \<bar>S\<bar> * B" by (simp add: algebra_simps)
  have "A / B - S / T = (A * T - S * B) / (B * T)"
    using bpos t by (simp add: field_simps)
  then have "\<bar>A / B - S / T\<bar> = \<bar>A * T - S * B\<bar> / (B * T)"
    using bpos t by (simp add: abs_mult)
  also have "\<dots> \<le> 3 * u * \<bar>S\<bar> * B / (B * T)"
    using num bpos t by (intro divide_right_mono) simp_all
  also have "\<dots> = 3 * u * \<bar>S / T\<bar>" using bpos t by (simp add: field_simps)
  finally show ?thesis .
qed

lemma throughput_accuracy:
  fixes S T :: rat
  assumes "0 < T"
  shows "\<bar>float64_round (float64_round (float64_round S / float64_round T) * 1000)
           - S / T * 1000\<bar> \<le> \<bar>S / T * 1000\<bar> / 2 ^ 50"
proof -
  let ?u = "1 / 2 ^ 53 :: rat"
  have a: "\<bar>float64_round S - S\<bar> \<le> ?u * \<bar>S\<bar>" using float64_round_error [of S] by simp
  have b: "\<bar>float64_round T - T\<bar> \<le> ?u * T"
    using float64_round_error [of T] assms by simp
  have q0: "\<bar>float64_round S / float64_round T - S / T\<bar> \<le> 3 * ?u * \<bar>S / T\<bar>"
    using quotient_of_rounded [OF a b assms] by simp
  have q1: "\<bar>float64_round (float64_round S / float64_round T) - S / T\<bar>
      \<le> (3 * ?u + 2 / 2 ^ 53) * \<bar>S / T\<bar>"
    using float64_round_step [OF q0] by simp
  have sc: "\<bar>a * 1000 - b * 1000\<bar> = \<bar>a - b\<bar> * 1000" for a b :: rat
  proof -
    have "a * 1000 - b * 1000 = (a - b) * 1000" by (simp add: algebra_simps)
    then have "\<bar>a * 1000 - b * 1000\<bar> = \<bar>a - b\<bar> * \<bar>1000\<bar>" by (simp only: abs_mult)
    then show ?thesis by simp
  qed
  have sc': "\<bar>b * 1000\<bar> = \<bar>b\<bar> * 1000" for b :: rat
    using sc [of b 0] by simp
  have "\<bar>float64_round (float64_round S / float64_round T) * 1000 - S / T * 1000\<bar>
      = \<bar>float64_round (float64_round S / float64_round T) - S / T\<bar> * 1000"
    by (rule sc)
  also have "\<dots> \<le> (3 * ?u + 2 / 2 ^ 53) * \<bar>S / T\<bar> * 1000"
    using q1 by (intro mult_right_mono) simp_all
  also have "\<dots> = 5 / 2 ^ 53 * (\<bar>S / T\<bar> * 1000)" by simp
  also have "\<dots> = 5 / 2 ^ 53 * \<bar>S / T * 1000\<bar>" by (simp only: sc')
  finally have p0: "\<bar>float64_round (float64_round S / float64_round T) * 1000 - S / T * 1000\<bar>
      \<le> 5 / 2 ^ 53 * \<bar>S / T * 1000\<bar>" .
  have "\<bar>float64_round (float64_round (float64_round S / float64_round T) * 1000)
           - S / T * 1000\<bar> \<le> (5 / 2 ^ 53 + 2 / 2 ^ 53) * \<bar>S / T * 1000\<bar>"
    using float64_round_step [OF p0] by simp
  also have "\<dots> \<le> 8 / 2 ^ 53 * \<bar>S / T * 1000\<bar>"
    by (intro mult_right_mono) simp_all
  also have "\<dots> = \<bar>S / T * 1000\<bar> / 2 ^ 50" by simp
  finally show ?thesis .
qed


lemma quotient_accuracy:
  fixes S T :: rat
  assumes "0 < T"
  shows "\<bar>float64_round (float64_round S / float64_round T) - S / T\<bar>
           \<le> \<bar>S / T\<bar> / 2 ^ 50"
proof -
  let ?u = "1 / 2 ^ 53 :: rat"
  have a: "\<bar>float64_round S - S\<bar> \<le> ?u * \<bar>S\<bar>" using float64_round_error [of S] by simp
  have b: "\<bar>float64_round T - T\<bar> \<le> ?u * T"
    using float64_round_error [of T] assms by simp
  have q0: "\<bar>float64_round S / float64_round T - S / T\<bar> \<le> 3 * ?u * \<bar>S / T\<bar>"
    using quotient_of_rounded [OF a b assms] by simp
  have "\<bar>float64_round (float64_round S / float64_round T) - S / T\<bar>
      \<le> (3 * ?u + 2 / 2 ^ 53) * \<bar>S / T\<bar>"
    using float64_round_step [OF q0] by simp
  also have "\<dots> \<le> 8 / 2 ^ 53 * \<bar>S / T\<bar>" by (intro mult_right_mono) simp_all
  also have "\<dots> = \<bar>S / T\<bar> / 2 ^ 50" by simp
  finally show ?thesis .
qed

lemma within_double_range:
  fixes x r :: rat
  assumes acc: "\<bar>r - x\<bar> \<le> \<bar>x\<bar> / 2 ^ 50"
    and lo: "1 / 2 ^ 63 \<le> \<bar>x\<bar>" and hi: "\<bar>x\<bar> \<le> 1000 * 2 ^ 63"
  shows "1 / 2 ^ 1022 \<le> \<bar>r\<bar> \<and> \<bar>r\<bar> < 2 ^ 1024"
proof -
  have "\<bar>x\<bar> / 2 ^ 50 \<le> \<bar>x\<bar> / 2" by (intro divide_left_mono) simp_all
  then have d: "\<bar>r - x\<bar> \<le> \<bar>x\<bar> / 2" using acc by linarith
  have r1: "\<bar>x\<bar> / 2 \<le> \<bar>r\<bar>" using d by linarith
  have r2: "\<bar>r\<bar> \<le> 2 * \<bar>x\<bar>" using d by linarith
  have "(1 / 2 ^ 1022 :: rat) \<le> 1 / 2 ^ 63 / 2" by simp
  also have "\<dots> \<le> \<bar>x\<bar> / 2" using lo by (intro divide_right_mono) simp_all
  also have "\<dots> \<le> \<bar>r\<bar>" by (rule r1)
  finally have a: "1 / 2 ^ 1022 \<le> \<bar>r\<bar>" .
  have "\<bar>r\<bar> \<le> 2 * \<bar>x\<bar>" by (rule r2)
  also have "\<dots> \<le> 2 * (1000 * 2 ^ 63)" using hi by (intro mult_left_mono) simp_all
  also have "\<dots> < 2 ^ 1024" by simp
  finally have b: "\<bar>r\<bar> < 2 ^ 1024" .
  show ?thesis using a b by simp
qed


lemma float64_round_minus: "float64_round (- x) = - float64_round x"
proof -
  obtain p q where pq: "quotient_of x = (p, q)" by (cases "quotient_of x")
  have "quotient_of (- x) = (- p, q)" using pq by (simp add: rat_uminus_code)
  then show ?thesis using pq by (simp add: float64_round_def Let_def sgn_minus)
qed

lemma quotient_accuracy_nonzero:
  fixes S T :: rat
  assumes "T \<noteq> 0"
  shows "\<bar>float64_round (float64_round S / float64_round T) - S / T\<bar>
           \<le> \<bar>S / T\<bar> / 2 ^ 50"
proof (cases "0 < T")
  case True
  then show ?thesis by (rule quotient_accuracy)
next
  case False
  then have "0 < - T" using assms by simp
  from quotient_accuracy [OF this, of "- S"] show ?thesis
    by (simp add: float64_round_minus)
qed

lemma product_accuracy_nonzero:
  fixes S T :: rat
  assumes "T \<noteq> 0"
  shows "\<bar>float64_round (float64_round (float64_round S / float64_round T) * 1000)
           - S / T * 1000\<bar> \<le> \<bar>S / T * 1000\<bar> / 2 ^ 50"
proof (cases "0 < T")
  case True
  then show ?thesis by (rule throughput_accuracy)
next
  case False
  then have "0 < - T" using assms by simp
  from throughput_accuracy [OF this, of "- S"] show ?thesis
    by (simp add: float64_round_minus)
qed

lemma int64_quotient_bounds:
  fixes a b :: "64 word"
  assumes "sint a \<noteq> 0" and "sint b \<noteq> 0"
  shows "1 / 2 ^ 63 \<le> \<bar>of_int (sint a) / of_int (sint b) :: rat\<bar>"
    and "\<bar>of_int (sint a) / of_int (sint b) :: rat\<bar> \<le> 2 ^ 63"
proof -
  have ra: "\<bar>sint a\<bar> \<le> 2 ^ 63" using sint_ge [of a] sint_lt [of a] by simp
  have rb: "\<bar>sint b\<bar> \<le> 2 ^ 63" using sint_ge [of b] sint_lt [of b] by simp
  have "1 \<le> \<bar>sint a\<bar>" using assms(1) by linarith
  then have a1: "(1::rat) \<le> \<bar>of_int (sint a)\<bar>"
    by (metis of_int_1 of_int_abs of_int_le_iff)
  have "1 \<le> \<bar>sint b\<bar>" using assms(2) by linarith
  then have b1: "(1::rat) \<le> \<bar>of_int (sint b)\<bar>"
    by (metis of_int_1 of_int_abs of_int_le_iff)
  have a2: "\<bar>of_int (sint a) :: rat\<bar> \<le> 2 ^ 63"
    using ra by (metis of_int_abs of_int_le_iff of_int_numeral of_int_power)
  have b2: "\<bar>of_int (sint b) :: rat\<bar> \<le> 2 ^ 63"
    using rb by (metis of_int_abs of_int_le_iff of_int_numeral of_int_power)
  have q: "\<bar>of_int (sint a) / of_int (sint b) :: rat\<bar>
      = \<bar>of_int (sint a)\<bar> / \<bar>of_int (sint b)\<bar>" by (simp only: abs_divide)
  have "1 / 2 ^ 63 \<le> 1 / \<bar>of_int (sint b) :: rat\<bar>"
    using b1 b2 by (intro divide_left_mono) simp_all
  also have "\<dots> \<le> \<bar>of_int (sint a)\<bar> / \<bar>of_int (sint b) :: rat\<bar>"
    using a1 b1 by (intro divide_right_mono) simp_all
  finally show "1 / 2 ^ 63 \<le> \<bar>of_int (sint a) / of_int (sint b) :: rat\<bar>"
    unfolding q .
  have "\<bar>of_int (sint a)\<bar> / \<bar>of_int (sint b) :: rat\<bar> \<le> \<bar>of_int (sint a)\<bar> / 1"
    using b1 by (intro divide_left_mono) simp_all
  also have "\<dots> \<le> 2 ^ 63" using a2 by simp
  finally show "\<bar>of_int (sint a) / of_int (sint b) :: rat\<bar> \<le> 2 ^ 63"
    unfolding q .
qed

lemma scaled_bounds:
  fixes y :: rat
  assumes "1 / 2 ^ 63 \<le> y" and "y \<le> 2 ^ 63"
  shows "1 / 2 ^ 63 \<le> y * 1000" and "y * 1000 \<le> 1000 * 2 ^ 63"
proof -
  have "0 \<le> y" using assms(1) by (rule order_trans [rotated]) simp
  then have "y \<le> y * 1000" by simp
  then show "1 / 2 ^ 63 \<le> y * 1000" using assms(1) by (rule order_trans [rotated])
  show "y * 1000 \<le> 1000 * 2 ^ 63" using assms(2) by simp
qed

lemma np_values_within_double_range:
  fixes a b :: "64 word"
  assumes "sint a \<noteq> 0" and "sint b \<noteq> 0"
  defines "q \<equiv> float64_round (float64_round (of_int (sint a)) / float64_round (of_int (sint b)))"
  shows "1 / 2 ^ 1022 \<le> \<bar>q\<bar> \<and> \<bar>q\<bar> < 2 ^ 1024"
    and "1 / 2 ^ 1022 \<le> \<bar>float64_round (q * 1000)\<bar> \<and> \<bar>float64_round (q * 1000)\<bar> < 2 ^ 1024"
proof -
  let ?x = "of_int (sint a) / of_int (sint b) :: rat"
  have b0: "(of_int (sint b) :: rat) \<noteq> 0" using assms(2) by (metis of_int_eq_0_iff)
  note bounds = int64_quotient_bounds [OF assms(1,2)]
  have hi1: "\<bar>?x\<bar> \<le> 1000 * 2 ^ 63" using bounds(2) by simp
  show "1 / 2 ^ 1022 \<le> \<bar>q\<bar> \<and> \<bar>q\<bar> < 2 ^ 1024"
    unfolding q_def
    using within_double_range [OF quotient_accuracy_nonzero [OF b0] bounds(1) hi1] .
  have sc: "\<bar>?x * 1000\<bar> = \<bar>?x\<bar> * 1000" by (simp only: abs_mult abs_numeral)
  have lo2: "1 / 2 ^ 63 \<le> \<bar>?x * 1000\<bar>"
    unfolding sc by (rule scaled_bounds(1) [OF bounds])
  have hi2: "\<bar>?x * 1000\<bar> \<le> 1000 * 2 ^ 63"
    unfolding sc by (rule scaled_bounds(2) [OF bounds])
  show "1 / 2 ^ 1022 \<le> \<bar>float64_round (q * 1000)\<bar> \<and> \<bar>float64_round (q * 1000)\<bar> < 2 ^ 1024"
    unfolding q_def
    using within_double_range [OF product_accuracy_nonzero [OF b0] lo2 hi2] .
qed

section \<open>Orchestration: helper lemmas\<close>

lemma for_each_all_ok:
  assumes "\<And>x s. x \<in> set xs \<Longrightarrow> snd (body x s) = None"
  shows "for_each body xs s = (fold (\<lambda>x s. fst (body x s)) xs s, None)"
  using assms
proof (induction xs arbitrary: s)
  case Nil
  then show ?case by simp
next
  case (Cons x xs)
  have "snd (body x s) = None" using Cons.prems by simp
  then obtain s' where b: "body x s = (s', None)" by (cases "body x s") auto
  have "for_each body xs s' = (fold (\<lambda>x s. fst (body x s)) xs s', None)"
    using Cons.IH Cons.prems by simp
  then show ?case using b by simp
qed

lemma for_each_fails_at:
  assumes "\<And>x s. x \<in> set pre \<Longrightarrow> snd (body x s) = None"
    and "\<And>s. snd (body bad s) = Some e"
  shows "for_each body (pre @ bad # post) s =
           (fold (\<lambda>x s. fst (body x s)) (pre @ [bad]) s, Some e)"
  using assms(1)
proof (induction pre arbitrary: s)
  case Nil
  obtain s' where "body bad s = (s', Some e)" using assms(2) [of s] by (cases "body bad s") auto
  then show ?case by simp
next
  case (Cons x xs)
  have "snd (body x s) = None" using Cons.prems by simp
  then obtain s' where b: "body x s = (s', None)" by (cases "body x s") auto
  have "for_each body (xs @ bad # post) s' =
          (fold (\<lambda>x s. fst (body x s)) (xs @ [bad]) s', Some e)"
    using Cons.IH Cons.prems by simp
  then show ?case using b by simp
qed

lemma enumerate_snd_in: "x \<in> set (enumerate j xs) \<Longrightarrow> snd x \<in> set xs"
proof -
  assume "x \<in> set (enumerate j xs)"
  then have "fst x - j < length xs" and "xs ! (fst x - j) = snd x"
    by (auto simp: in_set_enumerate_eq)
  then show ?thesis by (metis nth_mem)
qed

lemma upt_from_Suc: "[j..<Suc (j + n)] = j # [Suc j..<Suc (j + n)]"
  by (simp add: upt_conv_Cons)

lemma trace_fold_setup:
  "trace (fold (\<lambda>x s. fst (server_setup x s)) (enumerate j xs) s) =
     trace s @ map Setup [j..<j + length xs]"
  by (induction xs arbitrary: j s) (simp_all add: upt_from_Suc del: upt_Suc)

lemma running_fold_setup:
  "running (fold (\<lambda>x s. fst (server_setup x s)) (enumerate j xs) s) i =
     (if j \<le> i \<and> i < j + length xs then alive_after_setup (behaviour_of (xs ! (i - j)))
      else running s i)"
proof (induction xs arbitrary: j s)
  case Nil
  then show ?case by auto
next
  case (Cons x xs)
  show ?case
    by (auto simp add: Cons.IH nth_Cons' Suc_diff_le)
qed

lemma trace_fold_run:
  "trace (fold (\<lambda>x s. fst (server_run x s)) (enumerate j xs) s) =
     trace s @ map Run [j..<j + length xs]"
  by (induction xs arbitrary: j s) (simp_all add: upt_from_Suc del: upt_Suc)

lemma running_fold_run:
  "running (fold (\<lambda>x s. fst (server_run x s)) (enumerate j xs) s) = running s"
  by (induction xs arbitrary: j s) simp_all

lemma trace_fold_teardown:
  "trace (fold (\<lambda>x s. fst (server_teardown x s)) (enumerate j xs) s) =
     trace s @ map Teardown [j..<j + length xs]"
  by (induction xs arbitrary: j s) (simp_all add: upt_from_Suc del: upt_Suc)

lemma trace_fold_teardown_if_running:
  "trace (fold (\<lambda>x s. fst (teardown_if_running x s)) (enumerate j xs) s) =
     trace s @ map Teardown (filter (running s) [j..<j + length xs])"
proof (induction xs arbitrary: j s)
  case Nil
  then show ?case by simp
next
  case (Cons x xs)
  have same: "filter ((running s)(j := False)) [Suc j..<Suc (j + length xs)] =
        filter (running s) [Suc j..<Suc (j + length xs)]"
    by (rule filter_cong) auto
  show ?case by (simp add: Cons.IH upt_from_Suc same del: upt_Suc fun_upd_apply)
qed

lemma setup_and_run_ok:
  assumes "\<forall>n\<in>set servers. setup_raises (behaviour_of n) = None"
    and "\<forall>n\<in>set servers. run_raises (behaviour_of n) = None"
  shows "snd (setup_and_run mf servers s) = None"
    and "trace (fst (setup_and_run mf servers s)) =
           trace s @ map Setup [0..<length servers] @ [Delete_metrics_file mf]
             @ map Run [0..<length servers]"
proof -
  have a: "for_each server_setup (enumerate 0 servers) s =
      (fold (\<lambda>x s. fst (server_setup x s)) (enumerate 0 servers) s, None)"
    using assms(1) by (intro for_each_all_ok) (auto dest: enumerate_snd_in)
  have b: "for_each server_run (enumerate 0 servers) s' =
      (fold (\<lambda>x s. fst (server_run x s)) (enumerate 0 servers) s', None)" for s'
    using assms(2) by (intro for_each_all_ok) (auto dest: enumerate_snd_in)
  show "snd (setup_and_run mf servers s) = None"
    by (simp add: setup_and_run_def a b)
  show "trace (fst (setup_and_run mf servers s)) =
           trace s @ map Setup [0..<length servers] @ [Delete_metrics_file mf]
             @ map Run [0..<length servers]"
    using trace_fold_setup [of 0 servers s]
    by (simp add: setup_and_run_def a b trace_fold_run emit_def)
qed

lemma setup_and_run_setup_fails:
  assumes "\<forall>n\<in>set pre. setup_raises (behaviour_of n) = None"
    and "setup_raises (behaviour_of bad) = Some e"
  shows "snd (setup_and_run mf (pre @ bad # post) s) = Some e"
    and "trace (fst (setup_and_run mf (pre @ bad # post) s)) =
           trace s @ map Setup [0..<Suc (length pre)]"
    and "running (fst (setup_and_run mf (pre @ bad # post) s)) i =
           (if i \<le> length pre then alive_after_setup (behaviour_of ((pre @ [bad]) ! i))
            else running s i)"
proof -
  have a: "for_each server_setup (enumerate 0 (pre @ bad # post)) s =
      (fold (\<lambda>x s. fst (server_setup x s)) (enumerate 0 (pre @ [bad])) s, Some e)"
  proof -
    have p1: "snd (server_setup x s') = None" if "x \<in> set (enumerate 0 pre)" for x s'
    proof -
      obtain i n where x: "x = (i, n)" by (cases x)
      then have "n \<in> set pre" using that enumerate_snd_in [of x 0 pre] by simp
      then show ?thesis using assms(1) x by simp
    qed
    have p2: "snd (server_setup (length pre, bad) s') = Some e" for s'
      using assms(2) by simp
    show ?thesis
      using for_each_fails_at [of "enumerate 0 pre" server_setup "(length pre, bad)" e
        "enumerate (Suc (length pre)) post" s, OF p1 p2]
      by (simp add: enumerate_append_eq)
  qed
  show "snd (setup_and_run mf (pre @ bad # post) s) = Some e"
    by (simp add: setup_and_run_def a)
  show "trace (fst (setup_and_run mf (pre @ bad # post) s)) =
           trace s @ map Setup [0..<Suc (length pre)]"
    using trace_fold_setup [of 0 "pre @ [bad]" s]
    by (simp add: setup_and_run_def a del: upt_Suc)
  show "running (fst (setup_and_run mf (pre @ bad # post) s)) i =
           (if i \<le> length pre then alive_after_setup (behaviour_of ((pre @ [bad]) ! i))
            else running s i)"
    using running_fold_setup [of 0 "pre @ [bad]" s i]
    by (simp add: setup_and_run_def a less_Suc_eq_le)
qed

lemma run_servers_cleanup:
  assumes "setup_and_run mf servers s = (s1, Some e)"
    and "is_RuntimeError e"
    and "\<forall>n\<in>set servers. teardown_raises (behaviour_of n) = None"
  shows "snd (run_servers env mf other out servers s) = None"
    and "trace (fst (run_servers env mf other out servers s)) =
           trace s1 @ [LOG_error e]
             @ map Teardown (filter (running s1) [0..<length servers])"
proof -
  have a: "for_each teardown_if_running (enumerate 0 servers) s' =
      (fold (\<lambda>x s. fst (teardown_if_running x s)) (enumerate 0 servers) s', None)" for s'
    using assms(3) by (intro for_each_all_ok) (auto dest: enumerate_snd_in)
  show "snd (run_servers env mf other out servers s) = None"
    using assms(1,2) by (simp add: run_servers_def a)
  show "trace (fst (run_servers env mf other out servers s)) =
           trace s1 @ [LOG_error e]
             @ map Teardown (filter (running s1) [0..<length servers])"
    using assms(1,2) trace_fold_teardown_if_running [of 0 servers "emit [LOG_error e] s1"]
    by (simp add: run_servers_def a emit_def)
qed

lemma run_servers_propagates:
  assumes "setup_and_run mf servers s = (s1, Some e)"
    and "\<not> is_RuntimeError e"
  shows "run_servers env mf other out servers s = (s1, Some e)"
  using assms by (simp add: run_servers_def)

lemma run_servers_completes:
  assumes "\<forall>n\<in>set servers. setup_raises (behaviour_of n) = None"
    and "\<forall>n\<in>set servers. run_raises (behaviour_of n) = None"
    and "\<forall>n\<in>set servers. teardown_raises (behaviour_of n) = None"
    and "try_sync_servers (replica_sync_raises env) servers (fst (setup_and_run mf servers s))
          = (s2, None)"
  shows "snd (run_servers env mf other out servers s) = None"
    and "trace (fst (run_servers env mf other out servers s)) =
           trace s2 @ map Teardown [0..<length servers]
             @ [Create_results_dir, Delete_metrics_files other,
                Move_metrics_file_to_results_dir mf out,
                Aggregate_log_throughput out (aggregate_log_throughput (metrics_rows env))]"
proof -
  obtain s1 where s1: "setup_and_run mf servers s = (s1, None)"
    using setup_and_run_ok(1) [OF assms(1,2), of mf s]
    by (cases "setup_and_run mf servers s") auto
  have a: "for_each server_teardown (enumerate 0 servers) s' =
      (fold (\<lambda>x s. fst (server_teardown x s)) (enumerate 0 servers) s', None)" for s'
    using assms(3) by (intro for_each_all_ok) (auto dest: enumerate_snd_in)
  show "snd (run_servers env mf other out servers s) = None"
    using assms(4) s1 by (simp add: run_servers_def a)
  show "trace (fst (run_servers env mf other out servers s)) =
           trace s2 @ map Teardown [0..<length servers]
             @ [Create_results_dir, Delete_metrics_files other,
                Move_metrics_file_to_results_dir mf out,
                Aggregate_log_throughput out (aggregate_log_throughput (metrics_rows env))]"
    using assms(4) s1 trace_fold_teardown [of 0 servers s2]
    by (simp add: run_servers_def a emit_def)
qed


lemma count_primaries:
  "length (filter (\<lambda>(i, server). isinstance_PrimaryNode server) (enumerate j xs)) =
     length (filter isinstance_PrimaryNode xs)"
  by (induction xs arbitrary: j) simp_all

lemma sync_servers_many_primaries:
  assumes "2 \<le> length (filter isinstance_PrimaryNode servers)"
  shows "sync_servers rs servers =
           ([], Some (RuntimeError ''Should never have multiple primaries running at once''))"
proof -
  have "length (filter isinstance_PrimaryNode servers) \<le> length servers"
    by (rule length_filter_le)
  with assms have "\<not> length servers < 2" by linarith
  moreover have "1 < length (filter (\<lambda>(i, server). isinstance_PrimaryNode server)
      (enumerate 0 servers))"
    using assms by (simp add: count_primaries)
  ultimately show ?thesis by (simp add: sync_servers_def Let_def)
qed

lemma primary_or_replica: "(\<not> isinstance_PrimaryNode n) = isinstance_ReplicaNode n"
  by (cases n) simp_all

lemma length_by_role:
  "length servers =
     length (filter isinstance_PrimaryNode servers) + length (filter isinstance_ReplicaNode servers)"
  using sum_length_filter_compl [of isinstance_PrimaryNode servers]
  by (simp add: primary_or_replica)

lemma sync_servers_few_nodes:
  assumes "filter isinstance_ReplicaNode servers = []"
    and "length (filter isinstance_PrimaryNode servers) \<le> 1"
  shows "sync_servers rs servers = ([], None)"
proof -
  have "length servers < 2" using assms length_by_role [of servers] by simp
  then show ?thesis by (simp add: sync_servers_def)
qed

lemma teardown_order_append:
  "teardown_order (a @ b) = teardown_order a @ teardown_order b"
  by (induction a) (simp_all add: teardown_order_def split: option.splits)

lemma teardown_order_single:
  "teardown_order [ev] = (case teardown_index ev of None \<Rightarrow> [] | Some i \<Rightarrow> [i])"
  by (simp add: teardown_order_def split: option.splits)

lemma setup_order_single:
  "setup_order [ev] = (case setup_index ev of None \<Rightarrow> [] | Some i \<Rightarrow> [i])"
  by (simp add: setup_order_def split: option.splits)

lemma teardown_order_Teardown: "teardown_order (map Teardown ns) = ns"
  by (induction ns) (simp_all add: teardown_order_def)

lemma teardown_order_Setup: "teardown_order (map Setup ns) = []"
  by (induction ns) (simp_all add: teardown_order_def)

lemma teardown_order_Run: "teardown_order (map Run ns) = []"
  by (induction ns) (simp_all add: teardown_order_def)

lemma setup_order_append:
  "setup_order (a @ b) = setup_order a @ setup_order b"
  by (induction a) (simp_all add: setup_order_def split: option.splits)

lemma setup_order_Setup: "setup_order (map Setup ns) = ns"
  by (induction ns) (simp_all add: setup_order_def)

lemma setup_order_Teardown: "setup_order (map Teardown ns) = []"
  by (induction ns) (simp_all add: setup_order_def)

lemma setup_order_Run: "setup_order (map Run ns) = []"
  by (induction ns) (simp_all add: setup_order_def)

lemma teardown_order_for_each_setup:
  "teardown_order (trace (fst (for_each server_setup xs s))) = teardown_order (trace s)"
proof (induction xs arbitrary: s)
  case Nil
  then show ?case by simp
next
  case (Cons x xs)
  obtain i n where x: "x = (i, n)" by (cases x)
  show ?case
    by (cases "setup_raises (behaviour_of n)")
       (simp_all add: x Cons.IH teardown_order_append teardown_order_single)
qed

lemma teardown_order_for_each_run:
  "teardown_order (trace (fst (for_each server_run xs s))) = teardown_order (trace s)"
proof (induction xs arbitrary: s)
  case Nil
  then show ?case by simp
next
  case (Cons x xs)
  obtain i n where x: "x = (i, n)" by (cases x)
  show ?case
    by (cases "run_raises (behaviour_of n)")
       (simp_all add: x Cons.IH teardown_order_append teardown_order_single)
qed

lemma teardown_order_setup_and_run:
  "teardown_order (trace (fst (setup_and_run mf servers s))) = teardown_order (trace s)"
proof (cases "for_each server_setup (enumerate 0 servers) s")
  case (Pair s1 r)
  have t: "teardown_order (trace s1) = teardown_order (trace s)"
    using teardown_order_for_each_setup [of "enumerate 0 servers" s] Pair by simp
  show ?thesis
  proof (cases r)
    case None
    then show ?thesis
      using Pair t
      by (simp add: setup_and_run_def teardown_order_for_each_run emit_def
          teardown_order_append teardown_order_single)
  next
    case (Some e)
    then show ?thesis using Pair t by (simp add: setup_and_run_def)
  qed
qed

lemma for_each_teardown_prefix:
  "\<exists>m. trace (fst (for_each server_teardown (enumerate j xs) s)) =
         trace s @ map Teardown [j..<j + m]"
proof (induction xs arbitrary: j s)
  case Nil
  show ?case by (intro exI [of _ 0]) simp
next
  case (Cons x xs)
  show ?case
  proof (cases "teardown_raises (behaviour_of x)")
    case None
    obtain m where "trace (fst (for_each server_teardown (enumerate (Suc j) xs)
          (s\<lparr>trace := trace s @ [Teardown j], running := (running s)(j := False)\<rparr>))) =
        (trace s @ [Teardown j]) @ map Teardown [Suc j..<Suc j + m]"
      using Cons.IH [of "Suc j" "s\<lparr>trace := trace s @ [Teardown j],
          running := (running s)(j := False)\<rparr>"] by auto
    then have "trace (fst (for_each server_teardown (enumerate j (x # xs)) s)) =
        trace s @ map Teardown [j..<j + Suc m]"
      using None by (simp add: upt_from_Suc del: upt_Suc)
    then show ?thesis by blast
  next
    case (Some e)
    have "trace (fst (for_each server_teardown (enumerate j (x # xs)) s)) =
        trace s @ map Teardown [j..<j + 1]"
      using Some by simp
    then show ?thesis by blast
  qed
qed

lemma for_each_teardown_if_running_sorted:
  "\<exists>ns. trace (fst (for_each teardown_if_running (enumerate j xs) s)) =
          trace s @ map Teardown ns \<and> sorted_wrt (<) ns \<and> (\<forall>i\<in>set ns. j \<le> i)"
proof (induction xs arbitrary: j s)
  case Nil
  show ?case by (intro exI [of _ "[]"]) simp
next
  case (Cons x xs)
  show ?case
  proof (cases "running s j")
    case False
    then show ?thesis using Cons.IH [of "Suc j" s] by (auto intro: Suc_leD)
  next
    case True
    let ?s = "s\<lparr>trace := trace s @ [Teardown j], running := (running s)(j := False)\<rparr>"
    show ?thesis
    proof (cases "teardown_raises (behaviour_of x)")
      case None
      obtain ns where ns: "trace (fst (for_each teardown_if_running (enumerate (Suc j) xs) ?s)) =
            trace ?s @ map Teardown ns" "sorted_wrt (<) ns" "\<forall>i\<in>set ns. Suc j \<le> i"
        using Cons.IH [of "Suc j" ?s] by auto
      have "trace (fst (for_each teardown_if_running (enumerate j (x # xs)) s)) =
          trace s @ map Teardown (j # ns)"
        using None True ns(1) by simp
      moreover have "sorted_wrt (<) (j # ns)" using ns(2,3) by auto
      moreover have "\<forall>i\<in>set (j # ns). j \<le> i" using ns(3) by auto
      ultimately show ?thesis by blast
    next
      case (Some e)
      have "trace (fst (for_each teardown_if_running (enumerate j (x # xs)) s)) =
          trace s @ map Teardown [j]"
        using Some True by simp
      moreover have "sorted_wrt (<) [j]" by simp
      moreover have "\<forall>i\<in>set [j]. j \<le> i" by simp
      ultimately show ?thesis by blast
    qed
  qed
qed

lemma count_list_map_Teardown: "count_list (map Teardown ns) (Teardown i) = count_list ns i"
  by (induction ns) simp_all

lemma count_list_map_Setup: "count_list (map Setup ns) (Teardown i) = 0"
  by (induction ns) simp_all

lemma count_list_distinct: "distinct ns \<Longrightarrow> i \<in> set ns \<Longrightarrow> count_list ns i = 1"
  by (induction ns) auto

lemma filter_running_after_setup_failure:
  assumes "\<And>i. r i = (if i \<le> k then a i else False)"
  shows "filter r [0..<Suc k + m] = filter a [0..<Suc k]"
proof -
  have "[0..<Suc k + m] = [0..<Suc k] @ [Suc k..<Suc k + m]"
    by (rule upt_add_eq_append) simp
  moreover have "filter r [0..<Suc k] = filter a [0..<Suc k]"
    by (rule filter_cong) (auto simp: assms)
  moreover have "filter r [Suc k..<Suc k + m] = []"
    by (auto simp: filter_empty_conv assms)
  ultimately show ?thesis by (simp del: upt_Suc)
qed

lemma run_servers_setup_failed:
  assumes "\<forall>n\<in>set pre. setup_raises (behaviour_of n) = None"
    and "setup_raises (behaviour_of bad) = Some e"
    and "is_RuntimeError e"
    and "\<forall>n\<in>set (pre @ bad # post). teardown_raises (behaviour_of n) = None"
  shows "snd (run_servers env mf other out (pre @ bad # post) initial_state) = None"
    and "trace (fst (run_servers env mf other out (pre @ bad # post) initial_state)) =
           map Setup [0..<Suc (length pre)] @ [LOG_error e]
             @ map Teardown (filter (\<lambda>i. alive_after_setup (behaviour_of ((pre @ [bad]) ! i)))
                               [0..<Suc (length pre)])"
proof -
  let ?servers = "pre @ bad # post"
  obtain s1 where s1: "setup_and_run mf ?servers initial_state = (s1, Some e)"
    using setup_and_run_setup_fails(1) [OF assms(1,2), of mf post initial_state]
    by (cases "setup_and_run mf ?servers initial_state") auto
  have tr: "trace s1 = map Setup [0..<Suc (length pre)]"
    using setup_and_run_setup_fails(2) [OF assms(1,2), of mf post initial_state] s1
    by (simp add: initial_state_def del: upt_Suc)
  have ru: "running s1 i = (if i \<le> length pre
      then alive_after_setup (behaviour_of ((pre @ [bad]) ! i)) else False)" for i
    using setup_and_run_setup_fails(3) [OF assms(1,2), of mf post initial_state i] s1
    by (simp add: initial_state_def)
  have len: "length ?servers = Suc (length pre) + length post" by simp
  have fl: "filter (running s1) [0..<length ?servers] =
      filter (\<lambda>i. alive_after_setup (behaviour_of ((pre @ [bad]) ! i))) [0..<Suc (length pre)]"
    unfolding len
    by (rule filter_running_after_setup_failure) (rule ru)
  show "snd (run_servers env mf other out ?servers initial_state) = None"
    using run_servers_cleanup(1) [OF s1 assms(3,4)] .
  show "trace (fst (run_servers env mf other out ?servers initial_state)) =
           map Setup [0..<Suc (length pre)] @ [LOG_error e]
             @ map Teardown (filter (\<lambda>i. alive_after_setup (behaviour_of ((pre @ [bad]) ! i)))
                               [0..<Suc (length pre)])"
    using run_servers_cleanup(2) [OF s1 assms(3,4), of env other out] tr fl
    by (simp del: upt_Suc)
qed



lemma try_sync_servers_trace:
  "\<exists>evs. trace (fst (try_sync_servers polling servers s)) = trace s @ evs
         \<and> teardown_order evs = [] \<and> setup_order evs = []"
proof -
  obtain evs r where sy: "sync_servers polling servers = (evs, r)"
    by (cases "sync_servers polling servers")
  have "evs = [] \<or> (\<exists>p rs. evs = [Replica_sync p rs])"
    using sy by (auto simp: sync_servers_def Let_def split: if_splits)
  then have q: "teardown_order evs = [] \<and> setup_order evs = []"
    by (auto simp: teardown_order_single setup_order_single)
       (simp_all add: teardown_order_def setup_order_def)
  show ?thesis
  proof (cases r)
    case None
    then have "trace (fst (try_sync_servers polling servers s)) = trace s @ evs"
      using sy by (simp add: try_sync_servers_def emit_def)
    then show ?thesis using q by blast
  next
    case (Some e)
    show ?thesis
    proof (cases "is_Exception e")
      case True
      then have "trace (fst (try_sync_servers polling servers s)) = trace s @ (evs @ [LOG_warn e])"
        using sy Some by (simp add: try_sync_servers_def emit_def)
      moreover have "teardown_order (evs @ [LOG_warn e]) = []
          \<and> setup_order (evs @ [LOG_warn e]) = []"
        using q by (simp add: teardown_order_append setup_order_append teardown_order_single
            setup_order_single)
      ultimately show ?thesis by blast
    next
      case False
      then have "trace (fst (try_sync_servers polling servers s)) = trace s @ evs"
        using sy Some by (simp add: try_sync_servers_def emit_def)
      then show ?thesis using q by blast
    qed
  qed
qed

lemma teardown_order_Cons:
  "teardown_order (ev # evs) =
     (case teardown_index ev of None \<Rightarrow> teardown_order evs | Some i \<Rightarrow> i # teardown_order evs)"
  unfolding teardown_order_def by simp

lemma setup_order_Cons:
  "setup_order (ev # evs) =
     (case setup_index ev of None \<Rightarrow> setup_order evs | Some i \<Rightarrow> i # setup_order evs)"
  unfolding setup_order_def by simp

lemma teardown_order_run_servers_sorted:
  "sorted_wrt (<) (teardown_order (trace (fst (run_servers env mf other out servers
     initial_state))))"
proof -
  obtain s1 r where sr: "setup_and_run mf servers initial_state = (s1, r)"
    by (cases "setup_and_run mf servers initial_state")
  have t1: "teardown_order (trace s1) = []"
    using teardown_order_setup_and_run [of mf servers initial_state] sr
    by (simp add: initial_state_def teardown_order_def)
  show ?thesis
  proof (cases r)
    case (Some e)
    show ?thesis
    proof (cases "is_RuntimeError e")
      case True
      obtain ns where ns: "trace (fst (for_each teardown_if_running (enumerate 0 servers)
            (emit [LOG_error e] s1))) = trace (emit [LOG_error e] s1) @ map Teardown ns"
          "sorted_wrt (<) ns"
        using for_each_teardown_if_running_sorted [of 0 servers "emit [LOG_error e] s1"] by blast
      have "teardown_order (trace (fst (run_servers env mf other out servers initial_state))) = ns"
        using sr Some True ns(1) t1
        by (simp add: run_servers_def emit_def teardown_order_append teardown_order_Cons
            teardown_order_Teardown)
      then show ?thesis using ns(2) by simp
    next
      case False
      then show ?thesis using sr Some t1 by (simp add: run_servers_def)
    qed
  next
    case None
    obtain s2 r2 where s2: "try_sync_servers (replica_sync_raises env) servers s1 = (s2, r2)"
      by (cases "try_sync_servers (replica_sync_raises env) servers s1")
    have t2: "teardown_order (trace s2) = []"
      using try_sync_servers_trace [of "replica_sync_raises env" servers s1] s2 t1
      by (auto simp: teardown_order_append)
    show ?thesis
    proof (cases r2)
      case (Some e)
      then show ?thesis using sr None s2 t2 by (simp add: run_servers_def)
    next
      case None2: None
      obtain s3 r3 where s3: "for_each server_teardown (enumerate 0 servers) s2 = (s3, r3)"
        by (cases "for_each server_teardown (enumerate 0 servers) s2")
      obtain m where m: "trace s3 = trace s2 @ map Teardown [0..<0 + m]"
        using for_each_teardown_prefix [of 0 servers s2] s3 by auto
      have t3: "teardown_order (trace s3) = [0..<m]"
        using m t2 by (simp add: teardown_order_append teardown_order_Teardown)
      show ?thesis
      proof (cases r3)
        case (Some e)
        then show ?thesis
          using sr None s2 None2 s3 t3 by (simp add: run_servers_def)
      next
        case None3: None
        then show ?thesis
          using sr None s2 None2 s3 t3
          by (simp add: run_servers_def emit_def teardown_order_append)
             (simp add: teardown_order_def)
      qed
    qed
  qed
qed

lemma run_servers_returns_orders:
  assumes "\<forall>n\<in>set servers. setup_raises (behaviour_of n) = None"
    and "\<forall>n\<in>set servers. run_raises (behaviour_of n) = None"
    and "\<forall>n\<in>set servers. teardown_raises (behaviour_of n) = None"
    and "snd (run_servers env mf other out servers initial_state) = None"
  shows "teardown_order (trace (fst (run_servers env mf other out servers initial_state))) =
           [0..<length servers]"
    and "setup_order (trace (fst (run_servers env mf other out servers initial_state))) =
           [0..<length servers]"
proof -
  obtain s1 where s1: "setup_and_run mf servers initial_state = (s1, None)"
    using setup_and_run_ok(1) [OF assms(1,2), of mf initial_state]
    by (cases "setup_and_run mf servers initial_state") auto
  have t1: "trace s1 = map Setup [0..<length servers] @ [Delete_metrics_file mf]
      @ map Run [0..<length servers]"
    using setup_and_run_ok(2) [OF assms(1,2), of mf initial_state] s1
    by (simp add: initial_state_def)
  obtain s2 r2 where s2: "try_sync_servers (replica_sync_raises env) servers s1 = (s2, r2)"
    by (cases "try_sync_servers (replica_sync_raises env) servers s1")
  have "r2 = None"
  proof (cases r2)
    case (Some e)
    then have "snd (run_servers env mf other out servers initial_state) = Some e"
      using s1 s2 by (simp add: run_servers_def)
    then show ?thesis using assms(4) by simp
  qed simp
  then have s2': "try_sync_servers (replica_sync_raises env) servers
      (fst (setup_and_run mf servers initial_state)) = (s2, None)"
    using s1 s2 by simp
  obtain evs where evs: "trace s2 = trace s1 @ evs" "teardown_order evs = []"
      "setup_order evs = []"
    using try_sync_servers_trace [of "replica_sync_raises env" servers s1] s2 by auto
  note tr = run_servers_completes(2) [OF assms(1,2,3) s2', of other out]
  show "teardown_order (trace (fst (run_servers env mf other out servers initial_state))) =
           [0..<length servers]"
    unfolding tr evs(1) t1
    by (simp add: teardown_order_append teardown_order_Setup teardown_order_Run
        teardown_order_Teardown teardown_order_Cons evs(2))
       (simp add: teardown_order_def)
  show "setup_order (trace (fst (run_servers env mf other out servers initial_state))) =
           [0..<length servers]"
    unfolding tr evs(1) t1
    by (simp add: setup_order_append setup_order_Setup setup_order_Run
        setup_order_Teardown setup_order_Cons evs(3))
       (simp add: setup_order_def)
qed


lemma run_servers_setup_failed_setup_order:
  assumes "\<forall>n\<in>set pre. setup_raises (behaviour_of n) = None"
    and "setup_raises (behaviour_of bad) = Some e"
    and "is_RuntimeError e"
    and "\<forall>n\<in>set (pre @ bad # post). teardown_raises (behaviour_of n) = None"
  shows "setup_order (trace (fst (run_servers env mf other out (pre @ bad # post)
            initial_state))) = [0..<Suc (length pre)]"
    and "teardown_order (trace (fst (run_servers env mf other out (pre @ bad # post)
            initial_state))) =
           filter (\<lambda>i. alive_after_setup (behaviour_of ((pre @ [bad]) ! i)))
             [0..<Suc (length pre)]"
  unfolding run_servers_setup_failed(2) [OF assms]
  by (simp_all add: setup_order_append setup_order_Setup setup_order_Teardown setup_order_Cons
      teardown_order_append teardown_order_Setup teardown_order_Teardown teardown_order_Cons
      del: upt_Suc)

lemma log_throughput_globals:
  assumes "mf = (if test_type = PRIMARY then LOG_SERIALIZER_CSV c else RECOVERY_MANAGER_CSV c)"
    and "mf \<in> set G"
  shows "fst (log_throughput c env test_type replication_enabled output_file G) = remove1 mf G"
  using assms by (simp add: log_throughput_def Let_def split: prod.splits)

lemma log_throughput_missing:
  assumes "mf = (if test_type = PRIMARY then LOG_SERIALIZER_CSV c else RECOVERY_MANAGER_CSV c)"
    and "mf \<notin> set G"
  shows "log_throughput c env test_type replication_enabled output_file G =
           (G, initial_state, Some (ValueError ''list.remove(x): x not in list''))"
  using assms by (simp add: log_throughput_def Let_def)

lemma not_in_remove1_once: "count_list G x = 1 \<Longrightarrow> x \<notin> set (remove1 x G)"
proof (induction G)
  case Nil
  then show ?case by simp
next
  case (Cons a G)
  then show ?case by (auto simp: count_list_0_iff split: if_splits)
qed



text \<open>
  \<open>get_servers\<close> builds at most one primary, so within \<open>log_throughput\<close> the
  check for several primaries of \<open>sync_servers\<close> never fires.
\<close>

lemma get_servers_at_most_one_primary:
  "length (filter isinstance_PrimaryNode (get_servers primary replica test_type
     replication_enabled)) \<le> 1"
  by (simp add: get_servers_def)

lemma sync_servers_of_get_servers_raises_in_polling:
  assumes "snd (sync_servers sync_raises
      (get_servers primary replica test_type replication_enabled)) = Some e"
  shows "sync_raises = Some e"
    and "fst (sync_servers sync_raises
      (get_servers primary replica test_type replication_enabled)) = [Replica_sync 0 [1]]"
  using assms by (auto simp add: sync_servers_def get_servers_def split: if_splits)

section \<open>Aggregation: the claims\<close>

text \<open>
  C1 (amended). For every sequence of at least three records the aggregation discards
  exactly the first record: the result does not depend on it, and it is numpy's value of
  \<open>(S / T) * 1000\<close>, where \<open>S\<close> is the \<open>int64\<close> sum of \<open>num_records[1:]\<close> and
  \<open>T\<close> the \<open>int64\<close> value of \<open>start_time[-1] + elapsed_time[-1] - start_time[1]\<close>,
  both with wrap-around. When moreover the exact sum and the exact time window fit into
  64 bits, \<open>start_time\<close> increases strictly and the last \<open>elapsed_time\<close> is not
  negative, the window is positive and the result is the formula of the specification
  evaluated in \<open>float64\<close>: a finite value within a relative error of \<open>2^-50\<close> of
  \<open>(\<Sum> num_records[1:]) / (start_time[-1] + elapsed_time[-1] - start_time[1]) * 1000\<close>,
  in records per millisecond. (Two records are not enough: see the counterexample.)
\<close>

theorem aggregate_log_throughput_average:
  assumes "3 \<le> length rows"
  shows "aggregate_log_throughput rows =
           Inr (np_mul_1000 (np_truediv (sum_list (map num_records (drop 1 rows)))
                  (start_time (last rows) + elapsed_time (last rows) - start_time (rows ! 1))))
         \<and> (\<forall>r. aggregate_log_throughput (r # tl rows) = aggregate_log_throughput rows)
         \<and> (fits_int64 (exact_records rows) \<and> fits_int64 (exact_time rows)
              \<and> increasing_start_time rows \<and> 0 \<le> sint (elapsed_time (last rows)) \<longrightarrow>
              0 < exact_time rows
              \<and> aggregate_log_throughput rows =
                  Inr (Finite (float64_round
                    (float64_round (float64_round (of_int (exact_records rows))
                                    / float64_round (of_int (exact_time rows)))
                     * 1000)))
              \<and> (\<exists>v. aggregate_log_throughput rows = Inr (Finite v)
                    \<and> \<bar>v - of_int (exact_records rows) / of_int (exact_time rows) * 1000\<bar>
                        \<le> \<bar>of_int (exact_records rows) / of_int (exact_time rows) * 1000\<bar>
                            / 2 ^ 50))"
proof (intro conjI allI impI)
  show avg: "aggregate_log_throughput rows =
      Inr (np_mul_1000 (np_truediv (sum_list (map num_records (drop 1 rows)))
             (start_time (last rows) + elapsed_time (last rows) - start_time (rows ! 1))))"
    using aggregate_long [OF assms] by (simp add: window_records_def window_time_def)
  show "aggregate_log_throughput (r # tl rows) = aggregate_log_throughput rows" for r
  proof -
    have "rows = hd rows # tl rows" using assms by (cases rows) auto
    then show ?thesis using aggregate_first_irrelevant [of r rows "hd rows"] by simp
  qed
next
  assume h: "fits_int64 (exact_records rows) \<and> fits_int64 (exact_time rows)
      \<and> increasing_start_time rows \<and> 0 \<le> sint (elapsed_time (last rows))"
  show pos: "0 < exact_time rows" using h exact_time_pos [OF assms] by simp
  have "sint (window_records rows) = exact_records rows"
    using h sint_window_records by simp
  moreover have "sint (window_time rows) = exact_time rows"
    using h sint_window_time by simp
  ultimately show val: "aggregate_log_throughput rows =
      Inr (Finite (float64_round
        (float64_round (float64_round (of_int (exact_records rows))
                        / float64_round (of_int (exact_time rows)))
         * 1000)))"
    using aggregate_long [OF assms] pos by (simp add: np_truediv_def)
  have "(0::rat) < of_int (exact_time rows)" using pos by simp
  from throughput_accuracy [OF this, of "of_int (exact_records rows)"] val
  show "\<exists>v. aggregate_log_throughput rows = Inr (Finite v)
      \<and> \<bar>v - of_int (exact_records rows) / of_int (exact_time rows) * 1000\<bar>
          \<le> \<bar>of_int (exact_records rows) / of_int (exact_time rows) * 1000\<bar> / 2 ^ 50"
    by blast
qed

text \<open>
  The example of the specification: 95 records in 300 microseconds. The value logged is
  the double \<open>316.66666666666663\<close>, which is \<open>2785429457032533 / 2^43\<close>.
\<close>

theorem aggregate_log_throughput_average_witness:
  "aggregate_log_throughput [mk_record 0 100 5, mk_record 100 100 50, mk_record 300 100 45]
       = Inr (Finite (2785429457032533 / 8796093022208))
   \<and> aggregate_log_throughput [mk_record 7 7 7, mk_record 100 100 50, mk_record 300 100 45]
       = Inr (Finite (2785429457032533 / 8796093022208))
   \<and> exact_records [mk_record 0 100 5, mk_record 100 100 50, mk_record 300 100 45] = 95
   \<and> exact_time [mk_record 0 100 5, mk_record 100 100 50, mk_record 300 100 45] = 300"
proof -
  let ?rows = "[mk_record 0 100 5, mk_record 100 100 50, mk_record 300 100 45]"
  have len: "3 \<le> length ?rows" by simp
  have rec: "exact_records ?rows = 95" by (simp add: exact_records_def mk_record_def)
  have tim: "exact_time ?rows = 300" by (simp add: exact_time_def mk_record_def)
  have fits: "fits_int64 (exact_records ?rows) \<and> fits_int64 (exact_time ?rows)"
    unfolding rec tim by (simp add: fits_int64_def)
  have inc: "increasing_start_time ?rows"
    by (simp add: increasing_start_time_def mk_record_def)
  have el: "0 \<le> sint (elapsed_time (last ?rows))" by (simp add: mk_record_def)
  have r: "float64_round (float64_round (float64_round (of_int 95) / float64_round (of_int 300))
      * 1000) = 2785429457032533 / 8796093022208"
    by code_simp
  note th = aggregate_log_throughput_average [OF len]
  have "aggregate_log_throughput ?rows =
      Inr (Finite (float64_round (float64_round (float64_round (of_int (exact_records ?rows))
        / float64_round (of_int (exact_time ?rows))) * 1000)))"
    using th [THEN conjunct2, THEN conjunct2] fits inc el by blast
  then have avg: "aggregate_log_throughput ?rows =
      Inr (Finite (2785429457032533 / 8796093022208))"
    unfolding rec tim r .
  have "aggregate_log_throughput (mk_record 7 7 7 # tl ?rows) = aggregate_log_throughput ?rows"
    using th by blast
  then show ?thesis using avg rec tim by simp
qed

text \<open>
  C1 as stated fails on two records with increasing \<open>start_time\<close>: after the first
  record is dropped one record is left, and the function reports the error instead of
  the value of \<open>50 / (100 + 100 - 100) * 1000\<close>.
\<close>

theorem aggregate_two_records_no_average:
  "2 \<le> length [mk_record 0 100 5, mk_record 100 100 50]
   \<and> increasing_start_time [mk_record 0 100 5, mk_record 100 100 50]
   \<and> aggregate_log_throughput [mk_record 0 100 5, mk_record 100 100 50]
       = Inl ''Not enough data to calculate log throughput''
   \<and> (\<forall>v. aggregate_log_throughput [mk_record 0 100 5, mk_record 100 100 50] \<noteq> Inr v)"
  by (simp add: aggregate_log_throughput_def increasing_start_time_def mk_record_def)

text \<open>
  C2 (amended). The aggregation reports the error \<open>Not enough data to calculate log
  throughput\<close> exactly when the input has fewer than three records, and then no division
  takes place; every sequence of at least three records whose \<open>int64\<close> time window
  \<open>start_time[-1] + elapsed_time[-1] - start_time[1]\<close> (with wrap-around) is not zero
  yields a finite throughput value.
\<close>

theorem aggregate_not_enough_data_iff:
  "((\<exists>msg. aggregate_log_throughput rows = Inl msg) = (length rows < 3))
   \<and> (length rows < 3 \<longrightarrow>
        aggregate_log_throughput rows = Inl ''Not enough data to calculate log throughput'')
   \<and> (3 \<le> length rows \<and> window_time rows \<noteq> 0 \<longrightarrow>
        (\<exists>v. aggregate_log_throughput rows = Inr v \<and> np_isfinite v))"
proof (intro conjI impI)
  show "(\<exists>msg. aggregate_log_throughput rows = Inl msg) = (length rows < 3)"
  proof (cases "length rows < 3")
    case True
    then show ?thesis using aggregate_short by blast
  next
    case False
    then have "3 \<le> length rows" by simp
    from aggregate_long [OF this] False show ?thesis by simp
  qed
  show "aggregate_log_throughput rows = Inl ''Not enough data to calculate log throughput''"
    if "length rows < 3"
    using that by (rule aggregate_short)
  show "\<exists>v. aggregate_log_throughput rows = Inr v \<and> np_isfinite v"
    if "3 \<le> length rows \<and> window_time rows \<noteq> 0"
    using that aggregate_long [of rows] by (simp add: np_truediv_def sint_eq_0)
qed

text \<open>
  One record gives the error; three records with a window of 20 microseconds give a
  finite value; the window \<open>(2^63 - 1) + (2^63 - 1) - (-2)\<close> wraps around to zero and
  is outside the second part.
\<close>

theorem aggregate_not_enough_data_iff_witness:
  "length [mk_record 0 100 5] < 3
   \<and> aggregate_log_throughput [mk_record 0 100 5]
       = Inl ''Not enough data to calculate log throughput''
   \<and> 3 \<le> length [mk_record 0 10 1, mk_record 10 10 2, mk_record 20 10 4]
   \<and> window_time [mk_record 0 10 1, mk_record 10 10 2, mk_record 20 10 4] \<noteq> 0
   \<and> (\<exists>v. aggregate_log_throughput [mk_record 0 10 1, mk_record 10 10 2, mk_record 20 10 4]
            = Inr v \<and> np_isfinite v)
   \<and> window_time [mk_record 0 0 0, mk_record (- 2) 0 1,
        mk_record 9223372036854775807 9223372036854775807 1] = 0"
  using aggregate_not_enough_data_iff [of "[mk_record 0 100 5]"]
    aggregate_not_enough_data_iff [of "[mk_record 0 10 1, mk_record 10 10 2, mk_record 20 10 4]"]
  by (simp add: window_time_def mk_record_def)

text \<open>
  C2 as stated fails on a sequence of two records: it does not have fewer than two
  records, yet the error is reported and no throughput value is produced.
\<close>

theorem aggregate_two_records_error:
  "\<not> length [mk_record 10 20 3, mk_record 30 20 4] < 2
   \<and> aggregate_log_throughput [mk_record 10 20 3, mk_record 30 20 4]
       = Inl ''Not enough data to calculate log throughput''
   \<and> (\<forall>v. aggregate_log_throughput [mk_record 10 20 3, mk_record 30 20 4] \<noteq> Inr v)"
  by (simp add: aggregate_log_throughput_def mk_record_def)

section \<open>Synchronization: the claims\<close>

text \<open>
  C6. For every list of servers that contains two (or more) primary nodes,
  \<open>sync_servers\<close> raises the error \<open>Should never have multiple primaries running at
  once\<close>, and it does so before \<open>replica_sync\<close> is called: no polling event is caused,
  whatever the polling would have done.
\<close>

theorem sync_servers_multiple_primaries:
  assumes "2 \<le> length (filter isinstance_PrimaryNode servers)"
  shows "fst (sync_servers polling servers) = []
         \<and> snd (sync_servers polling servers) =
             Some (RuntimeError ''Should never have multiple primaries running at once'')"
  using sync_servers_many_primaries [OF assms, of polling] by simp

theorem sync_servers_multiple_primaries_witness:
  "2 \<le> length (filter isinstance_PrimaryNode [PrimaryNode ok, ReplicaNode ok, PrimaryNode ok])
   \<and> sync_servers (Some (OSError ''timed out'')) [PrimaryNode ok, ReplicaNode ok, PrimaryNode ok]
       = ([], Some (RuntimeError ''Should never have multiple primaries running at once''))"
  using sync_servers_multiple_primaries
    [of "[PrimaryNode ok, ReplicaNode ok, PrimaryNode ok]" "Some (OSError ''timed out'')"]
  by (simp add: prod_eq_iff)

text \<open>
  C8 (amended). For every list of servers with no replica node, \<open>sync_servers\<close> never
  polls; it returns without raising when the list has at most one primary node, and
  raises the multiple-primaries error when it has two or more.
\<close>

theorem sync_servers_without_replicas:
  assumes "filter isinstance_ReplicaNode servers = []"
  shows "sync_servers polling servers =
           ([], if length (filter isinstance_PrimaryNode servers) \<le> 1 then None
                else Some (RuntimeError ''Should never have multiple primaries running at once''))"
proof (cases "length (filter isinstance_PrimaryNode servers) \<le> 1")
  case True
  then show ?thesis using sync_servers_few_nodes [OF assms] by simp
next
  case False
  then have "2 \<le> length (filter isinstance_PrimaryNode servers)" by simp
  then show ?thesis using False sync_servers_many_primaries by simp
qed

theorem sync_servers_without_replicas_witness:
  "filter isinstance_ReplicaNode [PrimaryNode ok] = []
   \<and> sync_servers (Some (OSError ''timed out'')) [PrimaryNode ok] = ([], None)"
  using sync_servers_without_replicas [of "[PrimaryNode ok]" "Some (OSError ''timed out'')"]
  by simp

text \<open>
  C8 as stated fails on two primary nodes and no replica: the check for several
  primaries comes first and raises.
\<close>

theorem sync_servers_two_primaries_no_replica_raises:
  "filter isinstance_ReplicaNode [PrimaryNode ok, PrimaryNode ok] = []
   \<and> sync_servers None [PrimaryNode ok, PrimaryNode ok] =
       ([], Some (RuntimeError ''Should never have multiple primaries running at once''))"
  by (simp add: sync_servers_def)

section \<open>Orchestration: the claims\<close>

text \<open>
  C3 (amended). If \<open>setup()\<close> of a node raises a \<open>RuntimeError\<close> after the nodes
  before it were set up, and no \<open>teardown()\<close> raises, then the invocation returns
  early and its trace is: the setups up to the failing node, the logged error, and one
  teardown for every node that reports \<open>is_running()\<close>, in list order. So
  \<open>teardown()\<close> is invoked exactly once on every previously set up node that is
  running, neither \<open>run()\<close> nor the synchronization is invoked, no metrics file is
  relocated and no throughput is reported.
\<close>

theorem setup_failure_cleanup:
  assumes "\<forall>n\<in>set pre. setup_raises (behaviour_of n) = None"
    and "setup_raises (behaviour_of bad) = Some e"
    and "is_RuntimeError e"
    and "\<forall>n\<in>set (pre @ bad # post). teardown_raises (behaviour_of n) = None"
  shows "snd (run_servers env mf other out (pre @ bad # post) initial_state) = None
    \<and> trace (fst (run_servers env mf other out (pre @ bad # post) initial_state)) =
        map Setup [0..<Suc (length pre)] @ [LOG_error e]
          @ map Teardown (filter (\<lambda>i. alive_after_setup (behaviour_of ((pre @ [bad]) ! i)))
                            [0..<Suc (length pre)])
    \<and> (\<forall>i<length pre. alive_after_setup (behaviour_of (pre ! i)) \<longrightarrow>
          count_list (trace (fst (run_servers env mf other out (pre @ bad # post)
            initial_state))) (Teardown i) = 1)
    \<and> (\<forall>ev\<in>set (trace (fst (run_servers env mf other out (pre @ bad # post) initial_state))).
          \<not> is_run_or_sync ev \<and> \<not> is_result_event ev)"
proof -
  let ?tr = "trace (fst (run_servers env mf other out (pre @ bad # post) initial_state))"
  let ?alive = "\<lambda>i. alive_after_setup (behaviour_of ((pre @ [bad]) ! i))"
  let ?torn = "filter ?alive [0..<Suc (length pre)]"
  have ret: "snd (run_servers env mf other out (pre @ bad # post) initial_state) = None"
    using run_servers_setup_failed(1) [OF assms] .
  have tr: "?tr = map Setup [0..<Suc (length pre)] @ [LOG_error e] @ map Teardown ?torn"
    using run_servers_setup_failed(2) [OF assms] .
  have once: "count_list ?tr (Teardown i) = 1"
    if "i < length pre" and "alive_after_setup (behaviour_of (pre ! i))" for i
  proof -
    have "i \<in> set ?torn" using that by (simp add: nth_append)
    moreover have "distinct ?torn" by simp
    ultimately have "count_list ?torn i = 1" by (simp add: count_list_distinct del: upt_Suc)
    then show ?thesis
      by (simp add: tr count_list_map_Setup count_list_map_Teardown del: upt_Suc)
  qed
  have quiet: "\<not> is_run_or_sync ev \<and> \<not> is_result_event ev" if "ev \<in> set ?tr" for ev
    using that unfolding tr by auto
  show ?thesis using ret tr once quiet by blast
qed

text \<open>
  A primary that starts and a replica whose \<open>setup()\<close> raises a \<open>RuntimeError\<close>
  without leaving a process behind.
\<close>

theorem setup_failure_cleanup_witness:
  "snd (run_servers (example_env ok ok None) ''m.csv'' [] ''out.csv''
         ([PrimaryNode ok] @ ReplicaNode (setup_fails (RuntimeError ''no replica'') False) # [])
         initial_state) = None
   \<and> trace (fst (run_servers (example_env ok ok None) ''m.csv'' [] ''out.csv''
         ([PrimaryNode ok] @ ReplicaNode (setup_fails (RuntimeError ''no replica'') False) # [])
         initial_state))
       = [Setup 0, Setup 1, LOG_error (RuntimeError ''no replica''), Teardown 0]
   \<and> count_list (trace (fst (run_servers (example_env ok ok None) ''m.csv'' [] ''out.csv''
         ([PrimaryNode ok] @ ReplicaNode (setup_fails (RuntimeError ''no replica'') False) # [])
         initial_state))) (Teardown 0) = 1"
  using setup_failure_cleanup [of "[PrimaryNode ok]"
      "ReplicaNode (setup_fails (RuntimeError ''no replica'') False)"
      "RuntimeError ''no replica''" "[]" "example_env ok ok None" "''m.csv''" "[]" "''out.csv''"]
  by (simp add: ok_def setup_fails_def)

text \<open>
  C3 as stated fails when \<open>setup()\<close> raises an exception that is not a
  \<open>RuntimeError\<close>: with replication enabled and a replica whose \<open>setup()\<close> raises
  \<open>OSError\<close>, the exception leaves \<open>log_throughput\<close> after the two setups, and the
  running primary is not torn down.
\<close>

theorem setup_failure_other_exception_no_teardown:
  "snd (snd (log_throughput example_constants
          (example_env ok (setup_fails (OSError ''no replica'') False) None)
          PRIMARY True None example_METRICS_FILES)) = Some (OSError ''no replica'')
   \<and> trace (fst (snd (log_throughput example_constants
          (example_env ok (setup_fails (OSError ''no replica'') False) None)
          PRIMARY True None example_METRICS_FILES))) = [Setup 0, Setup 1]
   \<and> running (fst (snd (log_throughput example_constants
          (example_env ok (setup_fails (OSError ''no replica'') False) None)
          PRIMARY True None example_METRICS_FILES))) 0"
  by (simp add: log_throughput_def example_constants_def example_env_def
      example_METRICS_FILES_def get_servers_def run_servers_def setup_and_run_def
      initial_state_def ok_def setup_fails_def)

text \<open>
  C4 (amended). For every \<open>RuntimeError\<close> raised while setting up or running the
  nodes, provided no \<open>teardown()\<close> raises, \<open>log_throughput\<close> logs the error, calls
  \<open>teardown()\<close> once on every node that reports \<open>is_running()\<close>, in list order,
  and returns. An exception of any other class is not handled: it leaves
  \<open>log_throughput\<close> in the state reached, without any teardown.
\<close>

theorem runtime_error_cleanup:
  assumes "snd (setup_and_run mf servers s) = Some e"
    and "\<forall>n\<in>set servers. teardown_raises (behaviour_of n) = None"
  shows "(is_RuntimeError e \<longrightarrow>
            snd (run_servers env mf other out servers s) = None
          \<and> trace (fst (run_servers env mf other out servers s)) =
              trace (fst (setup_and_run mf servers s)) @ [LOG_error e]
                @ map Teardown (filter (running (fst (setup_and_run mf servers s)))
                                  [0..<length servers]))
       \<and> (\<not> is_RuntimeError e \<longrightarrow>
            run_servers env mf other out servers s = (fst (setup_and_run mf servers s), Some e))"
proof -
  have s1: "setup_and_run mf servers s = (fst (setup_and_run mf servers s), Some e)"
    using assms(1) by (simp add: prod_eq_iff)
  show ?thesis
    using run_servers_cleanup [OF s1 _ assms(2)] run_servers_propagates [OF s1]
    by blast
qed

theorem runtime_error_cleanup_witness:
  "snd (run_servers (example_env ok ok None) ''m.csv'' [] ''out.csv''
         [PrimaryNode ok, ReplicaNode (run_fails (RuntimeError ''no log shipper''))]
         initial_state) = None
   \<and> trace (fst (run_servers (example_env ok ok None) ''m.csv'' [] ''out.csv''
         [PrimaryNode ok, ReplicaNode (run_fails (RuntimeError ''no log shipper''))]
         initial_state))
       = [Setup 0, Setup 1, Delete_metrics_file ''m.csv'', Run 0, Run 1,
          LOG_error (RuntimeError ''no log shipper''), Teardown 0, Teardown 1]
   \<and> snd (run_servers (example_env ok ok None) ''m.csv'' [] ''out.csv''
         [PrimaryNode ok, ReplicaNode (setup_fails KeyboardInterrupt True)]
         initial_state) = Some KeyboardInterrupt
   \<and> trace (fst (run_servers (example_env ok ok None) ''m.csv'' [] ''out.csv''
         [PrimaryNode ok, ReplicaNode (setup_fails KeyboardInterrupt True)]
         initial_state))
       = [Setup 0, Setup 1]"
proof -
  let ?a = "[PrimaryNode ok, ReplicaNode (run_fails (RuntimeError ''no log shipper''))]"
  let ?b = "[PrimaryNode ok, ReplicaNode (setup_fails KeyboardInterrupt True)]"
  have a: "snd (setup_and_run ''m.csv'' ?a initial_state) = Some (RuntimeError ''no log shipper'')"
    by (simp add: setup_and_run_def ok_def run_fails_def)
  have ta: "trace (fst (setup_and_run ''m.csv'' ?a initial_state)) =
      [Setup 0, Setup 1, Delete_metrics_file ''m.csv'', Run 0, Run 1]"
    by (simp add: setup_and_run_def ok_def run_fails_def initial_state_def emit_def)
  have ra: "running (fst (setup_and_run ''m.csv'' ?a initial_state)) 0"
    "running (fst (setup_and_run ''m.csv'' ?a initial_state)) (Suc 0)"
    by (simp_all add: setup_and_run_def ok_def run_fails_def initial_state_def emit_def)
  have b: "snd (setup_and_run ''m.csv'' ?b initial_state) = Some KeyboardInterrupt"
    by (simp add: setup_and_run_def ok_def setup_fails_def)
  have tb: "trace (fst (setup_and_run ''m.csv'' ?b initial_state)) = [Setup 0, Setup 1]"
    by (simp add: setup_and_run_def ok_def setup_fails_def initial_state_def)
  have oka: "\<forall>n\<in>set ?a. teardown_raises (behaviour_of n) = None"
    by (simp add: ok_def run_fails_def)
  have okb: "\<forall>n\<in>set ?b. teardown_raises (behaviour_of n) = None"
    by (simp add: ok_def setup_fails_def)
  show ?thesis
    using runtime_error_cleanup [OF a oka, where env = "example_env ok ok None"
        and other = "[]" and out = "''out.csv''"]
      runtime_error_cleanup [OF b okb, where env = "example_env ok ok None"
        and other = "[]" and out = "''out.csv''"]
      ta ra tb
    by simp
qed

text \<open>
  C4 as stated fails for an exception that is not a \<open>RuntimeError\<close>: when
  \<open>run()\<close> of the replica raises \<open>ValueError\<close>, the exception leaves
  \<open>log_throughput\<close> with both nodes running and no teardown attempted.
\<close>

theorem run_failure_other_exception_no_teardown:
  "snd (snd (log_throughput example_constants
          (example_env ok (run_fails (ValueError ''bad log file'')) None)
          PRIMARY True None example_METRICS_FILES)) = Some (ValueError ''bad log file'')
   \<and> trace (fst (snd (log_throughput example_constants
          (example_env ok (run_fails (ValueError ''bad log file'')) None)
          PRIMARY True None example_METRICS_FILES)))
       = [Setup 0, Setup 1, Delete_metrics_file ''log_serializer_task.csv'', Run 0, Run 1]
   \<and> running (fst (snd (log_throughput example_constants
          (example_env ok (run_fails (ValueError ''bad log file'')) None)
          PRIMARY True None example_METRICS_FILES))) 0
   \<and> running (fst (snd (log_throughput example_constants
          (example_env ok (run_fails (ValueError ''bad log file'')) None)
          PRIMARY True None example_METRICS_FILES))) 1"
  by (simp add: log_throughput_def example_constants_def example_env_def
      example_METRICS_FILES_def get_servers_def run_servers_def setup_and_run_def
      initial_state_def ok_def run_fails_def emit_def)




text \<open>
  C9 (amended). In every run the nodes are torn down in the order of the list
  \<open>servers\<close>, which is the order of their setup, not its reverse: the positions of
  the torn down nodes increase along every trace. On the normal path every node is set
  up and torn down in list order; on the cleanup path after a failed setup the running
  nodes are torn down in list order. In a run with a primary and a replica the primary
  is first in the list, so it is torn down first.
\<close>

theorem teardown_in_list_order:
  "sorted_wrt (<) (teardown_order (trace (fst (run_servers env mf other out servers
      initial_state))))
   \<and> ((\<forall>n\<in>set servers. setup_raises (behaviour_of n) = None
                        \<and> run_raises (behaviour_of n) = None
                        \<and> teardown_raises (behaviour_of n) = None)
       \<and> snd (run_servers env mf other out servers initial_state) = None \<longrightarrow>
         setup_order (trace (fst (run_servers env mf other out servers initial_state)))
           = [0..<length servers]
       \<and> teardown_order (trace (fst (run_servers env mf other out servers initial_state)))
           = [0..<length servers])
   \<and> ((\<forall>n\<in>set pre. setup_raises (behaviour_of n) = None)
       \<and> setup_raises (behaviour_of bad) = Some e \<and> is_RuntimeError e
       \<and> (\<forall>n\<in>set (pre @ bad # post). teardown_raises (behaviour_of n) = None) \<longrightarrow>
         setup_order (trace (fst (run_servers env mf other out (pre @ bad # post)
             initial_state))) = [0..<Suc (length pre)]
       \<and> teardown_order (trace (fst (run_servers env mf other out (pre @ bad # post)
             initial_state))) =
           filter (\<lambda>i. alive_after_setup (behaviour_of ((pre @ [bad]) ! i)))
             [0..<Suc (length pre)])
   \<and> get_servers primary replica PRIMARY True = [PrimaryNode primary, ReplicaNode replica]"
proof (intro conjI impI)
  show "sorted_wrt (<) (teardown_order (trace (fst (run_servers env mf other out servers
      initial_state))))"
    by (rule teardown_order_run_servers_sorted)
  show "get_servers primary replica PRIMARY True = [PrimaryNode primary, ReplicaNode replica]"
    by (simp add: get_servers_def)
next
  assume a: "(\<forall>n\<in>set servers. setup_raises (behaviour_of n) = None
                        \<and> run_raises (behaviour_of n) = None
                        \<and> teardown_raises (behaviour_of n) = None)
       \<and> snd (run_servers env mf other out servers initial_state) = None"
  then have h: "\<forall>n\<in>set servers. setup_raises (behaviour_of n) = None"
    "\<forall>n\<in>set servers. run_raises (behaviour_of n) = None"
    "\<forall>n\<in>set servers. teardown_raises (behaviour_of n) = None"
    "snd (run_servers env mf other out servers initial_state) = None"
    by auto
  show "setup_order (trace (fst (run_servers env mf other out servers initial_state)))
           = [0..<length servers]"
    by (rule run_servers_returns_orders(2) [OF h])
  show "teardown_order (trace (fst (run_servers env mf other out servers initial_state)))
           = [0..<length servers]"
    by (rule run_servers_returns_orders(1) [OF h])
next
  assume b: "(\<forall>n\<in>set pre. setup_raises (behaviour_of n) = None)
       \<and> setup_raises (behaviour_of bad) = Some e \<and> is_RuntimeError e
       \<and> (\<forall>n\<in>set (pre @ bad # post). teardown_raises (behaviour_of n) = None)"
  then have h: "\<forall>n\<in>set pre. setup_raises (behaviour_of n) = None"
    "setup_raises (behaviour_of bad) = Some e" "is_RuntimeError e"
    "\<forall>n\<in>set (pre @ bad # post). teardown_raises (behaviour_of n) = None"
    by auto
  show "setup_order (trace (fst (run_servers env mf other out (pre @ bad # post)
             initial_state))) = [0..<Suc (length pre)]"
    by (rule run_servers_setup_failed_setup_order(1) [OF h])
  show "teardown_order (trace (fst (run_servers env mf other out (pre @ bad # post)
             initial_state))) =
           filter (\<lambda>i. alive_after_setup (behaviour_of ((pre @ [bad]) ! i)))
             [0..<Suc (length pre)]"
    by (rule run_servers_setup_failed_setup_order(2) [OF h])
qed

theorem teardown_in_list_order_witness:
  "setup_order (trace (fst (run_servers (example_env ok ok None) ''m.csv'' [] ''out.csv''
       (get_servers ok ok PRIMARY True) initial_state))) = [0, 1]
   \<and> teardown_order (trace (fst (run_servers (example_env ok ok None) ''m.csv'' [] ''out.csv''
       (get_servers ok ok PRIMARY True) initial_state))) = [0, 1]
   \<and> setup_order (trace (fst (run_servers (example_env ok ok None) ''m.csv'' [] ''out.csv''
       ([PrimaryNode ok] @ ReplicaNode (setup_fails (RuntimeError ''no replica'') True) # [])
       initial_state))) = [0, 1]
   \<and> teardown_order (trace (fst (run_servers (example_env ok ok None) ''m.csv'' [] ''out.csv''
       ([PrimaryNode ok] @ ReplicaNode (setup_fails (RuntimeError ''no replica'') True) # [])
       initial_state))) = [0, 1]"
proof -
  let ?env = "example_env ok ok None"
  let ?servers = "get_servers ok ok PRIMARY True"
  have gs: "?servers = [PrimaryNode ok, ReplicaNode ok]" by (simp add: get_servers_def)
  have ret: "snd (run_servers ?env ''m.csv'' [] ''out.csv'' ?servers initial_state) = None"
    unfolding gs
    by (simp add: run_servers_def setup_and_run_def try_sync_servers_def sync_servers_def
        example_env_def ok_def)
  have allok: "\<forall>n\<in>set ?servers. setup_raises (behaviour_of n) = None
      \<and> run_raises (behaviour_of n) = None \<and> teardown_raises (behaviour_of n) = None"
    unfolding gs by (simp add: ok_def)
  note th = teardown_in_list_order [where env = ?env and mf = "''m.csv''" and other = "[]"
      and out = "''out.csv''" and servers = ?servers and pre = "[PrimaryNode ok]"
      and bad = "ReplicaNode (setup_fails (RuntimeError ''no replica'') True)"
      and e = "RuntimeError ''no replica''" and post = "[]"]
  have n: "[0..<length ?servers] = [0, 1]" by (simp add: gs upt_conv_Cons)
  have "setup_order (trace (fst (run_servers ?env ''m.csv'' [] ''out.csv'' ?servers
        initial_state))) = [0, 1]
      \<and> teardown_order (trace (fst (run_servers ?env ''m.csv'' [] ''out.csv'' ?servers
        initial_state))) = [0, 1]"
    using th [THEN conjunct2, THEN conjunct1] allok ret n by simp
  moreover have "setup_order (trace (fst (run_servers ?env ''m.csv'' [] ''out.csv''
       ([PrimaryNode ok] @ ReplicaNode (setup_fails (RuntimeError ''no replica'') True) # [])
       initial_state))) = [0, 1]
   \<and> teardown_order (trace (fst (run_servers ?env ''m.csv'' [] ''out.csv''
       ([PrimaryNode ok] @ ReplicaNode (setup_fails (RuntimeError ''no replica'') True) # [])
       initial_state))) = [0, 1]"
    using th [THEN conjunct2, THEN conjunct2, THEN conjunct1]
    by (simp add: ok_def setup_fails_def upt_conv_Cons)
  ultimately show ?thesis by simp
qed

text \<open>
  C9 as stated fails on the run with a primary and a replica where everything
  succeeds: the primary is set up first and torn down first, the replica last.
\<close>

theorem primary_is_torn_down_first:
  "setup_order (trace (fst (snd (log_throughput example_constants (example_env ok ok None)
       PRIMARY True None example_METRICS_FILES)))) = [0, 1]
   \<and> teardown_order (trace (fst (snd (log_throughput example_constants
       (example_env ok ok None) PRIMARY True None example_METRICS_FILES)))) = [0, 1]
   \<and> teardown_order (trace (fst (snd (log_throughput example_constants
       (example_env ok ok None) PRIMARY True None example_METRICS_FILES))))
      \<noteq> rev (setup_order (trace (fst (snd (log_throughput example_constants
       (example_env ok ok None) PRIMARY True None example_METRICS_FILES)))))
   \<and> get_servers ok ok PRIMARY True ! 0 = PrimaryNode ok
   \<and> get_servers ok ok PRIMARY True ! 1 = ReplicaNode ok"
  by (simp add: log_throughput_def example_constants_def example_env_def
      example_METRICS_FILES_def get_servers_def run_servers_def setup_and_run_def
      try_sync_servers_def sync_servers_def initial_state_def ok_def emit_def
      setup_order_def teardown_order_def Let_def)

text \<open>
  C10. \<open>log_throughput\<close> removes the name of its metrics file from the module-level
  list \<open>METRICS_FILES\<close> and never puts it back, on any path. When the list holds that
  name once, a second call with the same test type finds the name missing:
  \<open>list.remove\<close> raises \<open>ValueError\<close> before any node is created or any other
  step is taken, and the list stays as the first call left it.
\<close>

theorem metrics_files_global_is_consumed:
  assumes "mf = (if test_type = PRIMARY then LOG_SERIALIZER_CSV c else RECOVERY_MANAGER_CSV c)"
    and "count_list G mf = 1"
  shows "fst (log_throughput c env test_type replication_enabled output_file G) = remove1 mf G
    \<and> log_throughput c env' test_type replication_enabled' output_file'
        (fst (log_throughput c env test_type replication_enabled output_file G)) =
        (remove1 mf G, initial_state, Some (ValueError ''list.remove(x): x not in list''))"
proof -
  have "mf \<in> set G" using assms(2) count_list_0_iff [of G mf] by auto
  then have g: "fst (log_throughput c env test_type replication_enabled output_file G) =
      remove1 mf G"
    using log_throughput_globals [OF assms(1)] by simp
  have "mf \<notin> set (remove1 mf G)" using assms(2) by (rule not_in_remove1_once)
  then show ?thesis using g log_throughput_missing [OF assms(1)] by simp
qed

theorem metrics_files_global_is_consumed_witness:
  "count_list example_METRICS_FILES ''log_serializer_task.csv'' = 1
   \<and> fst (log_throughput example_constants (example_env ok ok None) PRIMARY True None
       example_METRICS_FILES) = [''disk_log_consumer_task.csv'', ''recovery_manager.csv'']
   \<and> log_throughput example_constants (example_env ok ok None) PRIMARY False None
       (fst (log_throughput example_constants (example_env ok ok None) PRIMARY True None
          example_METRICS_FILES))
      = ([''disk_log_consumer_task.csv'', ''recovery_manager.csv''], initial_state,
         Some (ValueError ''list.remove(x): x not in list''))"
proof -
  have mf: "''log_serializer_task.csv'' =
      (if PRIMARY = PRIMARY then LOG_SERIALIZER_CSV example_constants
       else RECOVERY_MANAGER_CSV example_constants)"
    by (simp add: example_constants_def)
  have once: "count_list example_METRICS_FILES ''log_serializer_task.csv'' = 1"
    by (simp add: example_METRICS_FILES_def)
  have rm: "remove1 ''log_serializer_task.csv'' example_METRICS_FILES =
      [''disk_log_consumer_task.csv'', ''recovery_manager.csv'']"
    by (simp add: example_METRICS_FILES_def)
  note th = metrics_files_global_is_consumed [OF mf once, where env = "example_env ok ok None"
        and env' = "example_env ok ok None" and replication_enabled = True
        and replication_enabled' = False and output_file = None and output_file' = None]
  have a: "fst (log_throughput example_constants (example_env ok ok None) PRIMARY True None
       example_METRICS_FILES) = [''disk_log_consumer_task.csv'', ''recovery_manager.csv'']"
    using th [THEN conjunct1] rm by simp
  have b: "log_throughput example_constants (example_env ok ok None) PRIMARY False None
       (fst (log_throughput example_constants (example_env ok ok None) PRIMARY True None
          example_METRICS_FILES))
      = ([''disk_log_consumer_task.csv'', ''recovery_manager.csv''], initial_state,
         Some (ValueError ''list.remove(x): x not in list''))"
    using th [THEN conjunct2] rm by simp
  show ?thesis using once a b by blast
qed

end
